theory Spec2Isabelle
  imports Complex_Main
begin

section \<open>Tensors, errors and the library operations the notebook calls\<close>

text \<open>
  The notebook \<^verbatim>\<open>posts/transformers/index.ipynb\<close> defines a decoder-only transformer
  with PyTorch. A tensor is modelled by its shape and an indexing function; only
  indices inside the shape are meaningful. Floating-point numbers are modelled by the
  reals, so rounding, overflow and the value NaN are outside the model; the one
  non-finite value the code writes itself, \<^verbatim>\<open>float('-inf')\<close>, is the constructor
  \<open>NegInf\<close> below.
\<close>

datatype error = ValueError | RuntimeError | IndexError | ZeroDivisionError | NotANumber

datatype xreal = NegInf | Fin real

record 'a tensor =
  shape :: "nat list"
  el :: "nat list \<Rightarrow> 'a"

definition and_then :: "error + 'a \<Rightarrow> ('a \<Rightarrow> error + 'b) \<Rightarrow> error + 'b" where
  "and_then m f = (case m of Inl e \<Rightarrow> Inl e | Inr v \<Rightarrow> f v)"

text \<open>The leading (batch) dimensions of a shape or index: all but the last two.\<close>

definition batch_dims :: "nat list \<Rightarrow> nat list" where
  "batch_dims s = butlast (butlast s)"

text \<open>All multi-indices inside a shape, in row-major order.\<close>

fun indices :: "nat list \<Rightarrow> nat list list" where
  "indices [] = [[]]"
| "indices (n # ns) = concat (map (\<lambda>i. map ((#) i) (indices ns)) [0..<n])"

text \<open>The entries along the last dimension at the leading index \<open>pre\<close>.\<close>

definition row_of :: "'a tensor \<Rightarrow> nat list \<Rightarrow> 'a list" where
  "row_of x pre = map (\<lambda>k. el x (pre @ [k])) [0..<last (shape x)]"

subsection \<open>Broadcasting\<close>

text \<open>
  Shapes are aligned at their last dimension; two sizes are compatible when they are
  equal or one of them is 1. \<open>bshape\<close> works on reversed shapes.
\<close>

fun bshape :: "nat list \<Rightarrow> nat list \<Rightarrow> nat list option" where
  "bshape [] ys = Some ys"
| "bshape (x # xs) [] = Some (x # xs)"
| "bshape (x # xs) (y # ys) =
     (if x = y then map_option ((#) x) (bshape xs ys)
      else if y = 1 then map_option ((#) x) (bshape xs ys)
      else if x = 1 then map_option ((#) y) (bshape xs ys)
      else None)"

definition broadcast_shapes :: "nat list \<Rightarrow> nat list \<Rightarrow> nat list option" where
  "broadcast_shapes s t = map_option rev (bshape (rev s) (rev t))"

text \<open>The index into an operand of shape \<open>s\<close> for the index \<open>ix\<close> of the broadcast result.\<close>

definition bc_index :: "nat list \<Rightarrow> nat list \<Rightarrow> nat list" where
  "bc_index s ix = map2 (\<lambda>d i. if d = 1 then 0 else i) s (drop (length ix - length s) ix)"

definition tensor_add :: "real tensor \<Rightarrow> real tensor \<Rightarrow> error + real tensor" where
  "tensor_add x y =
     (case broadcast_shapes (shape x) (shape y) of
        None \<Rightarrow> Inl RuntimeError
      | Some s \<Rightarrow> Inr \<lparr>shape = s,
                     el = (\<lambda>ix. el x (bc_index (shape x) ix) + el y (bc_index (shape y) ix))\<rparr>)"

subsection \<open>\<^verbatim>\<open>nn.Linear\<close>\<close>

text \<open>
  \<open>weight l j k\<close> is \<^verbatim>\<open>weight[j][k]\<close>, of shape \<^verbatim>\<open>(out_features, in_features)\<close>; the layer
  computes \<^verbatim>\<open>x @ weight.T + bias\<close> on the last dimension and raises when the last
  dimension of its input is not \<^verbatim>\<open>in_features\<close>.
\<close>

record Linear =
  in_features :: nat
  out_features :: nat
  weight :: "nat \<Rightarrow> nat \<Rightarrow> real"
  bias :: "(nat \<Rightarrow> real) option"

definition Linear_forward :: "Linear \<Rightarrow> real tensor \<Rightarrow> error + real tensor" where
  "Linear_forward l x =
     (if shape x \<noteq> [] \<and> last (shape x) = in_features l
      then Inr \<lparr>shape = butlast (shape x) @ [out_features l],
                el = (\<lambda>ix. (\<Sum>k\<leftarrow>[0..<in_features l]. el x (butlast ix @ [k]) * weight l (last ix) k)
                           + (case bias l of None \<Rightarrow> 0 | Some b \<Rightarrow> b (last ix)))\<rparr>
      else Inl RuntimeError)"

text \<open>
  The constructor \<^verbatim>\<open>nn.Linear(n_in, n_out, bias=...)\<close>. PyTorch fills the parameters at random;
  \<open>init p\<close> stands for the initial value of the parameter at the module path \<open>p\<close>.
  A negative size is refused.
\<close>

type_synonym init = "nat list \<Rightarrow> nat \<Rightarrow> nat \<Rightarrow> real"

definition nn_Linear :: "init \<Rightarrow> nat list \<Rightarrow> int \<Rightarrow> int \<Rightarrow> bool \<Rightarrow> error + Linear" where
  "nn_Linear init p n_in n_out with_bias =
     (if 0 \<le> n_in \<and> 0 \<le> n_out
      then Inr \<lparr>in_features = nat n_in, out_features = nat n_out, weight = init (p @ [0]),
                bias = (if with_bias then Some (\<lambda>j. init (p @ [1]) j 0) else None)\<rparr>
      else Inl RuntimeError)"

subsection \<open>Matrix product, transposition, scaling\<close>

text \<open>
  \<^verbatim>\<open>a @ b\<close> for operands of the same rank (at least 2) and the same leading dimensions,
  which is how \<^verbatim>\<open>Head.forward\<close> uses it.
\<close>

definition matmul :: "real tensor \<Rightarrow> real tensor \<Rightarrow> error + real tensor" where
  "matmul a b =
     (if 2 \<le> length (shape a) \<and> 2 \<le> length (shape b)
         \<and> batch_dims (shape a) = batch_dims (shape b)
         \<and> last (shape a) = last (butlast (shape b))
      then Inr \<lparr>shape = butlast (shape a) @ [last (shape b)],
                el = (\<lambda>ix. \<Sum>k\<leftarrow>[0..<last (shape a)].
                        el a (butlast ix @ [k]) * el b (batch_dims ix @ [k, last ix]))\<rparr>
      else Inl RuntimeError)"

text \<open>\<^verbatim>\<open>x.transpose(-2, -1)\<close>\<close>

definition transpose_last2 :: "'a tensor \<Rightarrow> error + 'a tensor" where
  "transpose_last2 x =
     (if 2 \<le> length (shape x)
      then Inr \<lparr>shape = batch_dims (shape x) @ [last (shape x), last (butlast (shape x))],
                el = (\<lambda>ix. el x (batch_dims ix @ [last ix, last (butlast ix)]))\<rparr>
      else Inl IndexError)"

definition mul_scalar :: "real tensor \<Rightarrow> real \<Rightarrow> real tensor" where
  "mul_scalar x c = \<lparr>shape = shape x, el = (\<lambda>ix. el x ix * c)\<rparr>"

text \<open>
  Python's \<^verbatim>\<open>n ** e\<close> for an \<^verbatim>\<open>int\<close> \<open>n \<ge> 0\<close> and a \<^verbatim>\<open>float\<close> \<open>e\<close>:
  \<^verbatim>\<open>0 ** -0.5\<close> raises \<^verbatim>\<open>ZeroDivisionError\<close>.
\<close>

definition pow_float :: "nat \<Rightarrow> real \<Rightarrow> error + real" where
  "pow_float n e =
     (if n = 0 then (if e < 0 then Inl ZeroDivisionError else if e = 0 then Inr 1 else Inr 0)
      else Inr (real n powr e))"

subsection \<open>The causal mask\<close>

text \<open>\<^verbatim>\<open>torch.tril(torch.ones(n, n))\<close>\<close>

definition tril_ones :: "nat \<Rightarrow> real tensor" where
  "tril_ones n = \<lparr>shape = [n, n], el = (\<lambda>ix. if last ix \<le> last (butlast ix) then 1 else 0)\<rparr>"

text \<open>\<^verbatim>\<open>t[:a, :b]\<close>\<close>

definition slice2 :: "'a tensor \<Rightarrow> nat \<Rightarrow> nat \<Rightarrow> error + 'a tensor" where
  "slice2 t a b =
     (case shape t of
        r # c # rest \<Rightarrow> Inr \<lparr>shape = min a r # min b c # rest, el = el t\<rparr>
      | _ \<Rightarrow> Inl IndexError)"

text \<open>\<^verbatim>\<open>t == c\<close>\<close>

definition eq_scalar :: "real tensor \<Rightarrow> real \<Rightarrow> bool tensor" where
  "eq_scalar t c = \<lparr>shape = shape t, el = (\<lambda>ix. el t ix = c)\<rparr>"

text \<open>
  \<^verbatim>\<open>x.masked_fill(mask, v)\<close>: the mask must broadcast to the shape of \<open>x\<close>.
\<close>

definition masked_fill :: "real tensor \<Rightarrow> bool tensor \<Rightarrow> xreal \<Rightarrow> error + xreal tensor" where
  "masked_fill x msk v =
     (if broadcast_shapes (shape x) (shape msk) = Some (shape x)
      then Inr \<lparr>shape = shape x,
                el = (\<lambda>ix. if el msk (bc_index (shape msk) ix) then v else Fin (el x ix))\<rparr>
      else Inl RuntimeError)"

subsection \<open>\<^verbatim>\<open>F.softmax(x, dim=-1)\<close>\<close>

text \<open>
  The numerically stable form: the largest entry of the row is subtracted before
  exponentiating, and \<open>exp (-\<infinity>) = 0\<close>. A non-empty row with no finite entry would give
  NaN; the model reports it as \<open>NotANumber\<close> instead of returning a real number.
\<close>

fun fin_vals :: "xreal list \<Rightarrow> real list" where
  "fin_vals [] = []"
| "fin_vals (NegInf # r) = fin_vals r"
| "fin_vals (Fin v # r) = v # fin_vals r"

fun max_list :: "real list \<Rightarrow> real" where
  "max_list [] = 0"
| "max_list [v] = v"
| "max_list (v # w # r) = max v (max_list (w # r))"

definition exp_shift :: "real \<Rightarrow> xreal \<Rightarrow> real" where
  "exp_shift m e = (case e of NegInf \<Rightarrow> 0 | Fin v \<Rightarrow> exp (v - m))"

definition row_defined :: "xreal list \<Rightarrow> bool" where
  "row_defined r = (if r = [] then True else fin_vals r \<noteq> [])"

definition F_softmax :: "xreal tensor \<Rightarrow> error + real tensor" where
  "F_softmax x =
     (if shape x \<noteq> [] \<and> list_all (\<lambda>pre. row_defined (row_of x pre)) (indices (butlast (shape x)))
      then Inr \<lparr>shape = shape x,
                el = (\<lambda>ix. let r = row_of x (butlast ix); m = max_list (fin_vals r)
                           in exp_shift m (el x ix) / (\<Sum>e\<leftarrow>r. exp_shift m e))\<rparr>
      else if shape x = [] then Inl IndexError
      else Inl NotANumber)"

text \<open>
  \<^verbatim>\<open>nn.Dropout\<close>: the identity in evaluation mode. In training mode it zeroes entries at
  random and rescales the rest, keeping the shape; the entries it then produces are the
  parameter \<open>noise\<close>.
\<close>

definition nn_Dropout :: "bool \<Rightarrow> (real tensor \<Rightarrow> nat list \<Rightarrow> real) \<Rightarrow> real tensor \<Rightarrow> real tensor" where
  "nn_Dropout training noise x = (if training then \<lparr>shape = shape x, el = noise x\<rparr> else x)"

section \<open>One head of self-attention\<close>

text \<open>
  \<^verbatim>\<open>class Head\<close>. The constructor reads the notebook's globals \<^verbatim>\<open>d_model\<close> and
  \<^verbatim>\<open>seq_len\<close>; \<^verbatim>\<open>forward\<close> rebinds both names locally to the dimensions of its input.
\<close>

text \<open>The notebook's module-level names, as they stand when the model is built.\<close>

record globals =
  G_vocab_size :: int
  G_seq_len :: int
  G_d_model :: int
  G_n_head :: int
  G_n_layer :: int

text \<open>
  \<^verbatim>\<open>seq_len = 128\<close>, \<^verbatim>\<open>d_model = 512\<close>, \<^verbatim>\<open>n_head = 6\<close>, \<^verbatim>\<open>n_layer = 8\<close>; the vocabulary
  size is what the trained tokenizer reports, 12731 in the notebook's output.
\<close>

definition notebook_globals :: globals where
  "notebook_globals =
     \<lparr>G_vocab_size = 12731, G_seq_len = 128, G_d_model = 512, G_n_head = 6, G_n_layer = 8\<rparr>"

record Head =
  Head_key :: Linear
  Head_query :: Linear
  Head_value :: Linear
  Head_tril :: "real tensor"
  Head_training :: bool

text \<open>
  \<^verbatim>\<open>Head.__init__(head_size)\<close>: three bias-free projections from the global
  \<^verbatim>\<open>d_model\<close>, and the buffer \<^verbatim>\<open>tril\<close> of the global \<^verbatim>\<open>seq_len\<close>. A new module is in
  training mode.
\<close>

definition Head_init :: "globals \<Rightarrow> init \<Rightarrow> nat list \<Rightarrow> int \<Rightarrow> error + Head" where
  "Head_init G init p head_size =
     and_then (nn_Linear init (p @ [0]) (G_d_model G) head_size False) (\<lambda>key.
     and_then (nn_Linear init (p @ [1]) (G_d_model G) head_size False) (\<lambda>query.
     and_then (nn_Linear init (p @ [2]) (G_d_model G) head_size False) (\<lambda>value.
     (if 0 \<le> G_seq_len G
      then Inr \<lparr>Head_key = key, Head_query = query, Head_value = value,
                Head_tril = tril_ones (nat (G_seq_len G)), Head_training = True\<rparr>
      else Inl RuntimeError))))"

text \<open>\<^verbatim>\<open>eval()\<close> on a head.\<close>

definition Head_eval :: "Head \<Rightarrow> Head" where
  "Head_eval h = h\<lparr>Head_training := False\<rparr>"

text \<open>
  \<^verbatim>\<open>wei = q @ k.transpose(-2,-1) * d_model**-0.5\<close>, where \<^verbatim>\<open>d_model\<close> is the last
  dimension of \<^verbatim>\<open>x\<close>.
\<close>

definition Head_scores :: "Head \<Rightarrow> real tensor \<Rightarrow> error + real tensor" where
  "Head_scores h x =
     (case shape x of
        [batch_size, seq_len, d_model] \<Rightarrow>
          and_then (Linear_forward (Head_key h) x) (\<lambda>k.
          and_then (Linear_forward (Head_query h) x) (\<lambda>q.
          and_then (transpose_last2 k) (\<lambda>kT.
          and_then (matmul q kT) (\<lambda>qk.
          and_then (pow_float d_model (- 0.5)) (\<lambda>c.
          Inr (mul_scalar qk c))))))
      | _ \<Rightarrow> Inl ValueError)"

text \<open>
  The masked, normalized weights: \<^verbatim>\<open>masked_fill\<close> with the stored lower-triangular
  buffer, \<^verbatim>\<open>F.softmax\<close> and \<^verbatim>\<open>self.dropout\<close>.
\<close>

definition Head_weights :: "(real tensor \<Rightarrow> nat list \<Rightarrow> real) \<Rightarrow> Head \<Rightarrow> real tensor \<Rightarrow> error + real tensor" where
  "Head_weights noise h x =
     and_then (Head_scores h x) (\<lambda>wei.
       (case shape x of
          [batch_size, seq_len, d_model] \<Rightarrow>
            and_then (slice2 (Head_tril h) seq_len seq_len) (\<lambda>tr.
            and_then (masked_fill wei (eq_scalar tr 0) NegInf) (\<lambda>wei.
            and_then (F_softmax wei) (\<lambda>wei.
            Inr (nn_Dropout (Head_training h) noise wei))))
        | _ \<Rightarrow> Inl ValueError))"

text \<open>\<^verbatim>\<open>v = self.value(x); out = wei @ v\<close>\<close>

definition Head_forward :: "(real tensor \<Rightarrow> nat list \<Rightarrow> real) \<Rightarrow> Head \<Rightarrow> real tensor \<Rightarrow> error + real tensor" where
  "Head_forward noise h x =
     and_then (Head_weights noise h x) (\<lambda>wei.
     and_then (Linear_forward (Head_value h) x) (\<lambda>v.
     matmul wei v))"

section \<open>Multi-head attention, feed-forward layer and transformer block\<close>

text \<open>
  A list comprehension over calls that may raise: the results in order, or the first
  error.
\<close>

fun sequence :: "(error + 'a) list \<Rightarrow> error + 'a list" where
  "sequence [] = Inr []"
| "sequence (r # rs) = and_then r (\<lambda>v. and_then (sequence rs) (\<lambda>vs. Inr (v # vs)))"

text \<open>
  \<^verbatim>\<open>torch.cat(ts, dim=-1)\<close> for tensors that agree on all dimensions but the last; an
  empty list is refused.
\<close>

definition cat2 :: "'a tensor \<Rightarrow> 'a tensor \<Rightarrow> error + 'a tensor" where
  "cat2 a b =
     (if shape a \<noteq> [] \<and> shape b \<noteq> [] \<and> butlast (shape a) = butlast (shape b)
      then Inr \<lparr>shape = butlast (shape a) @ [last (shape a) + last (shape b)],
                el = (\<lambda>ix. if last ix < last (shape a) then el a ix
                           else el b (butlast ix @ [last ix - last (shape a)]))\<rparr>
      else Inl RuntimeError)"

fun torch_cat :: "'a tensor list \<Rightarrow> error + 'a tensor" where
  "torch_cat [] = Inl RuntimeError"
| "torch_cat [t] = (if shape t \<noteq> [] then Inr t else Inl RuntimeError)"
| "torch_cat (t # u # ts) = and_then (torch_cat (u # ts)) (cat2 t)"

record MultiHeadAttention =
  MHA_heads :: "Head list"
  MHA_proj :: Linear
  MHA_training :: bool

text \<open>
  \<^verbatim>\<open>MultiHeadAttention.__init__(num_heads, head_size)\<close>: \<^verbatim>\<open>range(num_heads)\<close> heads and a
  projection from the global \<^verbatim>\<open>d_model\<close> to itself.
\<close>

definition MultiHeadAttention_init ::
  "globals \<Rightarrow> init \<Rightarrow> nat list \<Rightarrow> int \<Rightarrow> int \<Rightarrow> error + MultiHeadAttention" where
  "MultiHeadAttention_init G init p num_heads head_size =
     and_then (sequence (map (\<lambda>i. Head_init G init (p @ [0, i]) head_size) [0..<nat num_heads])) (\<lambda>heads.
     and_then (nn_Linear init (p @ [1]) (G_d_model G) (G_d_model G) True) (\<lambda>proj.
     Inr \<lparr>MHA_heads = heads, MHA_proj = proj, MHA_training = True\<rparr>))"

text \<open>
  \<^verbatim>\<open>out = torch.cat([h(x) for h in self.heads], dim=-1)\<close>,
  \<^verbatim>\<open>out = self.dropout(self.proj(out))\<close>
\<close>

definition MultiHeadAttention_forward ::
  "(real tensor \<Rightarrow> nat list \<Rightarrow> real) \<Rightarrow> MultiHeadAttention \<Rightarrow> real tensor \<Rightarrow> error + real tensor" where
  "MultiHeadAttention_forward noise m x =
     and_then (sequence (map (\<lambda>h. Head_forward noise h x) (MHA_heads m))) (\<lambda>outs.
     and_then (torch_cat outs) (\<lambda>out.
     and_then (Linear_forward (MHA_proj m) out) (\<lambda>out.
     Inr (nn_Dropout (MHA_training m) noise out))))"

definition MultiHeadAttention_eval :: "MultiHeadAttention \<Rightarrow> MultiHeadAttention" where
  "MultiHeadAttention_eval m = m\<lparr>MHA_heads := map Head_eval (MHA_heads m), MHA_training := False\<rparr>"

text \<open>
  \<^verbatim>\<open>class FeedFoward\<close>: \<^verbatim>\<open>Linear(d_model, 4 * d_model)\<close>, \<^verbatim>\<open>ReLU\<close>,
  \<^verbatim>\<open>Linear(4 * d_model, d_model)\<close>, \<^verbatim>\<open>Dropout\<close>.
\<close>

record FeedFoward =
  FF_fc1 :: Linear
  FF_fc2 :: Linear
  FF_training :: bool

definition FeedFoward_init :: "init \<Rightarrow> nat list \<Rightarrow> int \<Rightarrow> error + FeedFoward" where
  "FeedFoward_init init p d_model =
     and_then (nn_Linear init (p @ [0]) d_model (4 * d_model) True) (\<lambda>fc1.
     and_then (nn_Linear init (p @ [2]) (4 * d_model) d_model True) (\<lambda>fc2.
     Inr \<lparr>FF_fc1 = fc1, FF_fc2 = fc2, FF_training = True\<rparr>))"

definition nn_ReLU :: "real tensor \<Rightarrow> real tensor" where
  "nn_ReLU x = \<lparr>shape = shape x, el = (\<lambda>ix. max 0 (el x ix))\<rparr>"

definition FeedFoward_forward ::
  "(real tensor \<Rightarrow> nat list \<Rightarrow> real) \<Rightarrow> FeedFoward \<Rightarrow> real tensor \<Rightarrow> error + real tensor" where
  "FeedFoward_forward noise f x =
     and_then (Linear_forward (FF_fc1 f) x) (\<lambda>a.
     and_then (Linear_forward (FF_fc2 f) (nn_ReLU a)) (\<lambda>b.
     Inr (nn_Dropout (FF_training f) noise b)))"

definition FeedFoward_eval :: "FeedFoward \<Rightarrow> FeedFoward" where
  "FeedFoward_eval f = f\<lparr>FF_training := False\<rparr>"

text \<open>
  \<^verbatim>\<open>nn.LayerNorm(d)\<close>: each row along the last dimension is centred, divided by the
  square root of its (biased) variance plus \<open>eps\<close>, then scaled and shifted. The
  parameters start at 1 and 0, \<open>eps\<close> is \<open>1e-5\<close>.
\<close>

record LayerNorm =
  LN_dim :: nat
  LN_weight :: "nat \<Rightarrow> real"
  LN_bias :: "nat \<Rightarrow> real"
  LN_eps :: real

definition nn_LayerNorm :: "int \<Rightarrow> error + LayerNorm" where
  "nn_LayerNorm d =
     (if 0 \<le> d
      then Inr \<lparr>LN_dim = nat d, LN_weight = (\<lambda>j. 1), LN_bias = (\<lambda>j. 0), LN_eps = 1 / 100000\<rparr>
      else Inl RuntimeError)"

definition LayerNorm_forward :: "LayerNorm \<Rightarrow> real tensor \<Rightarrow> error + real tensor" where
  "LayerNorm_forward lnm x =
     (if shape x \<noteq> [] \<and> last (shape x) = LN_dim lnm
      then Inr \<lparr>shape = shape x,
                el = (\<lambda>ix. let r = row_of x (butlast ix);
                               mu = sum_list r / real (LN_dim lnm);
                               var = (\<Sum>v\<leftarrow>r. (v - mu)\<^sup>2) / real (LN_dim lnm)
                           in (el x ix - mu) / sqrt (var + LN_eps lnm) * LN_weight lnm (last ix)
                              + LN_bias lnm (last ix))\<rparr>
      else Inl RuntimeError)"

text \<open>
  \<^verbatim>\<open>class Block\<close>. The constructor computes \<^verbatim>\<open>head_size = d_model // n_head\<close> (floor
  division, which raises for \<^verbatim>\<open>n_head = 0\<close>) and builds the sublayers.
\<close>

record Block =
  Block_sa :: MultiHeadAttention
  Block_ffwd :: FeedFoward
  Block_ln1 :: LayerNorm
  Block_ln2 :: LayerNorm

definition Block_init :: "globals \<Rightarrow> init \<Rightarrow> nat list \<Rightarrow> int \<Rightarrow> int \<Rightarrow> error + Block" where
  "Block_init G init p d_model n_head =
     (if n_head = 0 then Inl ZeroDivisionError
      else (let head_size = d_model div n_head in
        and_then (MultiHeadAttention_init G init (p @ [0]) n_head head_size) (\<lambda>sa.
        and_then (FeedFoward_init init (p @ [1]) d_model) (\<lambda>ffwd.
        and_then (nn_LayerNorm d_model) (\<lambda>ln1.
        and_then (nn_LayerNorm d_model) (\<lambda>ln2.
        Inr \<lparr>Block_sa = sa, Block_ffwd = ffwd, Block_ln1 = ln1, Block_ln2 = ln2\<rparr>))))))"

text \<open>
  \<^verbatim>\<open>x = x + self.sa(self.ln1(x)); x = x + self.ffwd(self.ln2(x)); return x\<close>
\<close>

definition Block_forward ::
  "(real tensor \<Rightarrow> nat list \<Rightarrow> real) \<Rightarrow> Block \<Rightarrow> real tensor \<Rightarrow> error + real tensor" where
  "Block_forward noise b x =
     and_then (LayerNorm_forward (Block_ln1 b) x) (\<lambda>n1.
     and_then (MultiHeadAttention_forward noise (Block_sa b) n1) (\<lambda>a.
     and_then (tensor_add x a) (\<lambda>x.
     and_then (LayerNorm_forward (Block_ln2 b) x) (\<lambda>n2.
     and_then (FeedFoward_forward noise (Block_ffwd b) n2) (\<lambda>f.
     tensor_add x f)))))"

definition Block_eval :: "Block \<Rightarrow> Block" where
  "Block_eval b = b\<lparr>Block_sa := MultiHeadAttention_eval (Block_sa b),
                     Block_ffwd := FeedFoward_eval (Block_ffwd b)\<rparr>"

section \<open>The language model and the generation loop\<close>

text \<open>
  \<^verbatim>\<open>nn.Embedding(n, d)\<close>: a table of \<open>n\<close> rows; looking up an id outside \<open>[0, n)\<close>
  raises \<^verbatim>\<open>IndexError\<close>.
\<close>

record Embedding =
  num_embeddings :: nat
  embedding_dim :: nat
  emb_weight :: "nat \<Rightarrow> nat \<Rightarrow> real"

definition nn_Embedding :: "init \<Rightarrow> nat list \<Rightarrow> int \<Rightarrow> int \<Rightarrow> error + Embedding" where
  "nn_Embedding init p n d =
     (if 0 \<le> n \<and> 0 \<le> d
      then Inr \<lparr>num_embeddings = nat n, embedding_dim = nat d, emb_weight = init (p @ [0])\<rparr>
      else Inl RuntimeError)"

definition Embedding_forward :: "Embedding \<Rightarrow> int tensor \<Rightarrow> error + real tensor" where
  "Embedding_forward e idx =
     (if list_all (\<lambda>ix. 0 \<le> el idx ix \<and> el idx ix < int (num_embeddings e)) (indices (shape idx))
      then Inr \<lparr>shape = shape idx @ [embedding_dim e],
                el = (\<lambda>ix. emb_weight e (nat (el idx (butlast ix))) (last ix))\<rparr>
      else Inl IndexError)"

text \<open>\<^verbatim>\<open>torch.arange(T)\<close>\<close>

definition torch_arange :: "nat \<Rightarrow> int tensor" where
  "torch_arange T = \<lparr>shape = [T], el = (\<lambda>ix. int (last ix))\<rparr>"

text \<open>
  \<^verbatim>\<open>t.view(s)\<close> of a contiguous tensor: the same entries in row-major order under a new
  shape with the same number of entries.
\<close>

fun flat_index :: "nat list \<Rightarrow> nat list \<Rightarrow> nat" where
  "flat_index (d # ds) (i # js) = i * prod_list ds + flat_index ds js"
| "flat_index ds js = 0"

fun unflat_index :: "nat list \<Rightarrow> nat \<Rightarrow> nat list" where
  "unflat_index [] n = []"
| "unflat_index (d # ds) n = (n div prod_list ds) # unflat_index ds (n mod prod_list ds)"

definition view :: "'a tensor \<Rightarrow> nat list \<Rightarrow> error + 'a tensor" where
  "view t s =
     (if prod_list s = prod_list (shape t)
      then Inr \<lparr>shape = s, el = (\<lambda>ix. el t (unflat_index (shape t) (flat_index s ix)))\<rparr>
      else Inl RuntimeError)"

text \<open>\<^verbatim>\<open>nn.Sequential\<close> over the blocks.\<close>

fun Sequential_forward ::
  "(real tensor \<Rightarrow> nat list \<Rightarrow> real) \<Rightarrow> Block list \<Rightarrow> real tensor \<Rightarrow> error + real tensor" where
  "Sequential_forward noise [] x = Inr x"
| "Sequential_forward noise (b # bs) x =
     and_then (Block_forward noise b x) (Sequential_forward noise bs)"

record TextGenerationModel =
  token_embedding_table :: Embedding
  position_embedding_table :: Embedding
  blocks :: "Block list"
  ln_f :: LayerNorm
  lm_head :: Linear

text \<open>\<^verbatim>\<open>TextGenerationModel.__init__\<close>, from the globals.\<close>

definition TextGenerationModel_init :: "globals \<Rightarrow> init \<Rightarrow> error + TextGenerationModel" where
  "TextGenerationModel_init G init =
     and_then (nn_Embedding init [0] (G_vocab_size G) (G_d_model G)) (\<lambda>tok.
     and_then (nn_Embedding init [1] (G_seq_len G) (G_d_model G)) (\<lambda>pos.
     and_then (sequence (map (\<lambda>i. Block_init G init [2, i] (G_d_model G) (G_n_head G))
                 [0..<nat (G_n_layer G)])) (\<lambda>bs.
     and_then (nn_LayerNorm (G_d_model G)) (\<lambda>lnf.
     and_then (nn_Linear init [4] (G_d_model G) (G_vocab_size G) True) (\<lambda>head.
     Inr \<lparr>token_embedding_table = tok, position_embedding_table = pos, blocks = bs,
          ln_f = lnf, lm_head = head\<rparr>)))))"

definition TextGenerationModel_eval :: "TextGenerationModel \<Rightarrow> TextGenerationModel" where
  "TextGenerationModel_eval m = m\<lparr>blocks := map Block_eval (blocks m)\<rparr>"

text \<open>
  \<^verbatim>\<open>TextGenerationModel.forward(idx, targets=None)\<close>. \<open>ce\<close> is \<^verbatim>\<open>F.cross_entropy\<close>. In the
  branch with targets the code rebinds \<^verbatim>\<open>batch_size, seq_len, d_model\<close> to the shape of
  the logits.
\<close>

definition TextGenerationModel_forward ::
  "(real tensor \<Rightarrow> int tensor \<Rightarrow> error + real) \<Rightarrow> (real tensor \<Rightarrow> nat list \<Rightarrow> real)
     \<Rightarrow> TextGenerationModel \<Rightarrow> int tensor \<Rightarrow> int tensor option
     \<Rightarrow> error + real tensor \<times> real option" where
  "TextGenerationModel_forward ce noise m idx targets =
     (case shape idx of
        [B, T] \<Rightarrow>
          and_then (Embedding_forward (token_embedding_table m) idx) (\<lambda>tok_emb.
          and_then (Embedding_forward (position_embedding_table m) (torch_arange T)) (\<lambda>pos_emb.
          and_then (tensor_add tok_emb pos_emb) (\<lambda>x.
          and_then (Sequential_forward noise (blocks m) x) (\<lambda>x.
          and_then (LayerNorm_forward (ln_f m) x) (\<lambda>x.
          and_then (Linear_forward (lm_head m) x) (\<lambda>logits.
          (case targets of
             None \<Rightarrow> Inr (logits, None)
           | Some targets \<Rightarrow>
               (case shape logits of
                  [batch_size, seq_len, d_model] \<Rightarrow>
                    and_then (view logits [batch_size * seq_len, d_model]) (\<lambda>logits.
                    and_then (view targets [batch_size * seq_len]) (\<lambda>targets.
                    and_then (ce logits targets) (\<lambda>loss.
                    Inr (logits, Some loss))))
                | _ \<Rightarrow> Inl ValueError))))))))
      | _ \<Rightarrow> Inl ValueError)"

text \<open>
  Python's slice \<^verbatim>\<open>[s:]\<close> on a dimension of size \<open>L\<close>: a negative start counts from the
  end, and the start is clamped to \<open>[0, L]\<close>.
\<close>

definition slice_start :: "int \<Rightarrow> nat \<Rightarrow> nat" where
  "slice_start s L = (if s < 0 then nat (max (s + int L) 0) else min (nat s) L)"

text \<open>\<^verbatim>\<open>t[:, s:]\<close>\<close>

definition slice_from_dim1 :: "'a tensor \<Rightarrow> int \<Rightarrow> error + 'a tensor" where
  "slice_from_dim1 t s =
     (case shape t of
        B # L # rest \<Rightarrow>
          Inr \<lparr>shape = B # (L - slice_start s L) # rest,
               el = (\<lambda>ix. el t (ix[1 := ix ! 1 + slice_start s L]))\<rparr>
      | _ \<Rightarrow> Inl IndexError)"

text \<open>\<^verbatim>\<open>t[:, -1, :]\<close>\<close>

definition select_last_dim1 :: "'a tensor \<Rightarrow> error + 'a tensor" where
  "select_last_dim1 t =
     (case shape t of
        B # T # V # rest \<Rightarrow>
          (if 0 < T then Inr \<lparr>shape = B # V # rest, el = (\<lambda>ix. el t (hd ix # (T - 1) # tl ix))\<rparr>
           else Inl IndexError)
      | _ \<Rightarrow> Inl IndexError)"

definition fin_tensor :: "real tensor \<Rightarrow> xreal tensor" where
  "fin_tensor x = \<lparr>shape = shape x, el = (\<lambda>ix. Fin (el x ix))\<rparr>"

text \<open>
  \<^verbatim>\<open>torch.multinomial(probs, num_samples=1)\<close> on a batch of distributions: one index per
  row, as a \<open>(B, 1)\<close> tensor. The random source is a state \<open>'g\<close>; \<open>draw g r\<close> samples an
  index from the row \<open>r\<close> and returns the next state. Rows must be non-empty and
  non-negative with a positive sum. Only a matrix of distributions is modelled, which is
  what \<^verbatim>\<open>generate\<close> passes.
\<close>

fun draw_rows :: "('g \<Rightarrow> real list \<Rightarrow> nat \<times> 'g) \<Rightarrow> 'g \<Rightarrow> real list list \<Rightarrow> nat list \<times> 'g" where
  "draw_rows draw g [] = ([], g)"
| "draw_rows draw g (r # rs) =
     (case draw g r of (k, g1) \<Rightarrow> (case draw_rows draw g1 rs of (ks, g2) \<Rightarrow> (k # ks, g2)))"

definition valid_probs :: "real list \<Rightarrow> bool" where
  "valid_probs r \<longleftrightarrow> r \<noteq> [] \<and> list_all (\<lambda>v. 0 \<le> v) r \<and> 0 < sum_list r"

definition torch_multinomial ::
  "('g \<Rightarrow> real list \<Rightarrow> nat \<times> 'g) \<Rightarrow> 'g \<Rightarrow> real tensor \<Rightarrow> error + int tensor \<times> 'g" where
  "torch_multinomial draw g probs =
     (case shape probs of
        [B, V] \<Rightarrow>
          (let rows = map (\<lambda>b. row_of probs [b]) [0..<B] in
           if list_all valid_probs rows
           then (case draw_rows draw g rows of
                   (ks, g') \<Rightarrow> Inr (\<lparr>shape = [B, 1], el = (\<lambda>ix. int (ks ! hd ix))\<rparr>, g'))
           else Inl RuntimeError)
      | _ \<Rightarrow> Inl RuntimeError)"

text \<open>
  \<^verbatim>\<open>torch.cat((a, b), dim=1)\<close> for two matrices, the only operands \<^verbatim>\<open>generate\<close> can
  reach it with: the model call before it accepts a matrix only, and the sampler returns
  one.
\<close>

definition cat_dim1 :: "'a tensor \<Rightarrow> 'a tensor \<Rightarrow> error + 'a tensor" where
  "cat_dim1 a b =
     (if length (shape a) = 2 \<and> length (shape b) = 2 then cat2 a b else Inl RuntimeError)"

text \<open>
  \<^verbatim>\<open>TextGenerationModel.generate(idx, max_new_tokens)\<close>. The loop state is the growing
  \<^verbatim>\<open>idx\<close> and the random source; \<open>gs_calls\<close> records, in order, each \<^verbatim>\<open>idx_cond\<close> passed
  to the model. \<open>fwd\<close> is the call \<^verbatim>\<open>self(idx_cond)\<close> (its loss is dropped); it may read the
  random source, as dropout does in training mode. \<open>seq_len\<close> is the global.
\<close>

record 'g gen_state =
  gs_idx :: "int tensor"
  gs_rng :: 'g
  gs_calls :: "int tensor list"

definition generate_step ::
  "(int tensor \<Rightarrow> 'g \<Rightarrow> error + real tensor \<times> 'g) \<Rightarrow> ('g \<Rightarrow> real list \<Rightarrow> nat \<times> 'g)
     \<Rightarrow> int \<Rightarrow> 'g gen_state \<Rightarrow> error + 'g gen_state" where
  "generate_step fwd draw seq_len st =
     and_then (slice_from_dim1 (gs_idx st) (- seq_len)) (\<lambda>idx_cond.
     and_then (fwd idx_cond (gs_rng st)) (\<lambda>(logits, g1).
     and_then (select_last_dim1 logits) (\<lambda>logits.
     and_then (F_softmax (fin_tensor logits)) (\<lambda>probs.
     and_then (torch_multinomial draw g1 probs) (\<lambda>(idx_next, g2).
     and_then (cat_dim1 (gs_idx st) idx_next) (\<lambda>idx.
     Inr \<lparr>gs_idx = idx, gs_rng = g2, gs_calls = gs_calls st @ [idx_cond]\<rparr>))))))"

fun generate_loop ::
  "(int tensor \<Rightarrow> 'g \<Rightarrow> error + real tensor \<times> 'g) \<Rightarrow> ('g \<Rightarrow> real list \<Rightarrow> nat \<times> 'g)
     \<Rightarrow> int \<Rightarrow> nat \<Rightarrow> 'g gen_state \<Rightarrow> error + 'g gen_state" where
  "generate_loop fwd draw seq_len 0 st = Inr st"
| "generate_loop fwd draw seq_len (Suc n) st =
     and_then (generate_step fwd draw seq_len st) (generate_loop fwd draw seq_len n)"

text \<open>\<^verbatim>\<open>range(max_new_tokens)\<close> is empty for a negative argument.\<close>

definition generate ::
  "(int tensor \<Rightarrow> 'g \<Rightarrow> error + real tensor \<times> 'g) \<Rightarrow> ('g \<Rightarrow> real list \<Rightarrow> nat \<times> 'g)
     \<Rightarrow> int \<Rightarrow> int tensor \<Rightarrow> int \<Rightarrow> 'g \<Rightarrow> error + 'g gen_state" where
  "generate fwd draw seq_len idx max_new_tokens g =
     generate_loop fwd draw seq_len (nat max_new_tokens) \<lparr>gs_idx = idx, gs_rng = g, gs_calls = []\<rparr>"

text \<open>
  The call \<^verbatim>\<open>self(idx_cond)\<close> of a model whose forward pass does not read the random
  source, as in evaluation mode: no targets, the loss is dropped and the source is
  returned as it was.
\<close>

definition model_call ::
  "(real tensor \<Rightarrow> int tensor \<Rightarrow> error + real) \<Rightarrow> (real tensor \<Rightarrow> nat list \<Rightarrow> real)
     \<Rightarrow> TextGenerationModel \<Rightarrow> int tensor \<Rightarrow> 'g \<Rightarrow> error + real tensor \<times> 'g" where
  "model_call ce noise m idx_cond g =
     and_then (TextGenerationModel_forward ce noise m idx_cond None) (\<lambda>(logits, loss). Inr (logits, g))"

section \<open>Predicates used in the statements\<close>

text \<open>
  Shapes that fit together. \<open>head_fits C hs n h\<close>: the projections of \<open>h\<close> read \<open>C\<close>
  features, key and query have the same width, the value projection has width \<open>hs\<close>, and
  the mask buffer is the one the constructor stores for \<open>seq_len = n\<close>. \<open>block_fits\<close> and
  \<open>model_fits\<close> say the same of a block and of the whole model; in particular the
  concatenated heads have the width the output projection reads.
\<close>

definition head_fits :: "nat \<Rightarrow> nat \<Rightarrow> nat \<Rightarrow> Head \<Rightarrow> bool" where
  "head_fits C hs n h \<longleftrightarrow>
     in_features (Head_key h) = C \<and> in_features (Head_query h) = C \<and> in_features (Head_value h) = C
     \<and> out_features (Head_key h) = out_features (Head_query h) \<and> out_features (Head_value h) = hs
     \<and> Head_tril h = tril_ones n"

definition block_fits :: "nat \<Rightarrow> nat \<Rightarrow> Block \<Rightarrow> bool" where
  "block_fits C n b \<longleftrightarrow>
     LN_dim (Block_ln1 b) = C \<and> LN_dim (Block_ln2 b) = C
     \<and> MHA_heads (Block_sa b) \<noteq> []
     \<and> list_all (head_fits C (out_features (Head_value (hd (MHA_heads (Block_sa b))))) n)
          (MHA_heads (Block_sa b))
     \<and> length (MHA_heads (Block_sa b)) * out_features (Head_value (hd (MHA_heads (Block_sa b))))
          = in_features (MHA_proj (Block_sa b))
     \<and> out_features (MHA_proj (Block_sa b)) = C
     \<and> in_features (FF_fc1 (Block_ffwd b)) = C
     \<and> in_features (FF_fc2 (Block_ffwd b)) = out_features (FF_fc1 (Block_ffwd b))
     \<and> out_features (FF_fc2 (Block_ffwd b)) = C"

definition model_fits :: "nat \<Rightarrow> nat \<Rightarrow> nat \<Rightarrow> TextGenerationModel \<Rightarrow> bool" where
  "model_fits V n C m \<longleftrightarrow>
     0 < C
     \<and> num_embeddings (token_embedding_table m) = V \<and> embedding_dim (token_embedding_table m) = C
     \<and> num_embeddings (position_embedding_table m) = n \<and> embedding_dim (position_embedding_table m) = C
     \<and> list_all (block_fits C n) (blocks m)
     \<and> LN_dim (ln_f m) = C
     \<and> in_features (lm_head m) = C \<and> out_features (lm_head m) = V"

text \<open>Every token id of \<open>c\<close> lies in \<open>[0, V)\<close>.\<close>

definition tokens_in :: "nat \<Rightarrow> int tensor \<Rightarrow> bool" where
  "tokens_in V c \<longleftrightarrow> list_all (\<lambda>ix. 0 \<le> el c ix \<and> el c ix < int V) (indices (shape c))"

text \<open>
  \<open>is_window idx B L w c\<close>: \<open>c\<close> holds, for each of the \<open>B\<close> rows, the last \<open>min L w\<close> of the
  first \<open>L\<close> tokens of \<open>idx\<close>.
\<close>

definition is_window :: "int tensor \<Rightarrow> nat \<Rightarrow> nat \<Rightarrow> nat \<Rightarrow> int tensor \<Rightarrow> bool" where
  "is_window idx B L w c \<longleftrightarrow>
     shape c = [B, min L w]
     \<and> list_all (\<lambda>ix. el c ix = el idx [hd ix, L - min L w + hd (tl ix)]) (indices [B, min L w])"

text \<open>
  What the generation loop needs from its environment: the model returns logits of shape
  \<open>(B, T, V)\<close> for every context of at most \<open>n\<close> valid tokens, and the sampler returns an
  index of the distribution it is given.
\<close>

definition forward_returns ::
  "(int tensor \<Rightarrow> 'g \<Rightarrow> error + real tensor \<times> 'g) \<Rightarrow> nat \<Rightarrow> nat \<Rightarrow> nat \<Rightarrow> bool" where
  "forward_returns fwd B n V \<longleftrightarrow>
     (\<forall>c g T. shape c = [B, T] \<and> 1 \<le> T \<and> T \<le> n \<and> tokens_in V c
        \<longrightarrow> (\<exists>lg g'. fwd c g = Inr (lg, g') \<and> shape lg = [B, T, V]))"

definition sampler_in_range :: "('g \<Rightarrow> real list \<Rightarrow> nat \<times> 'g) \<Rightarrow> nat \<Rightarrow> bool" where
  "sampler_in_range draw V \<longleftrightarrow> (\<forall>g r. length r = V \<longrightarrow> fst (draw g r) < V)"

text \<open>
  Two runs are compared through a relation \<open>R\<close> between their random sources: related
  sources make the model and the sampler behave alike and stay related. Two runs have
  the same outcome when both raise the same error or both return the same sequence,
  related sources and the same record of model inputs.
\<close>

definition forward_agrees ::
  "('g \<Rightarrow> 'h \<Rightarrow> bool) \<Rightarrow> (int tensor \<Rightarrow> 'g \<Rightarrow> error + real tensor \<times> 'g)
     \<Rightarrow> (int tensor \<Rightarrow> 'h \<Rightarrow> error + real tensor \<times> 'h) \<Rightarrow> bool" where
  "forward_agrees R fwd1 fwd2 \<longleftrightarrow>
     (\<forall>c g g'. R g g' \<longrightarrow>
        (\<exists>e. fwd1 c g = Inl e \<and> fwd2 c g' = Inl e)
      \<or> (\<exists>lg h h'. fwd1 c g = Inr (lg, h) \<and> fwd2 c g' = Inr (lg, h') \<and> R h h'))"

definition sampler_agrees ::
  "('g \<Rightarrow> 'h \<Rightarrow> bool) \<Rightarrow> ('g \<Rightarrow> real list \<Rightarrow> nat \<times> 'g) \<Rightarrow> ('h \<Rightarrow> real list \<Rightarrow> nat \<times> 'h) \<Rightarrow> bool" where
  "sampler_agrees R draw1 draw2 \<longleftrightarrow>
     (\<forall>r g g'. R g g' \<longrightarrow> fst (draw1 g r) = fst (draw2 g' r) \<and> R (snd (draw1 g r)) (snd (draw2 g' r)))"

definition same_outcome :: "('g \<Rightarrow> 'h \<Rightarrow> bool) \<Rightarrow> error + 'g gen_state \<Rightarrow> error + 'h gen_state \<Rightarrow> bool" where
  "same_outcome R r r' =
     (case (r, r') of
        (Inl e, Inl e') \<Rightarrow> e = e'
      | (Inr s, Inr s') \<Rightarrow> gs_idx s = gs_idx s' \<and> R (gs_rng s) (gs_rng s') \<and> gs_calls s = gs_calls s'
      | _ \<Rightarrow> False)"

section \<open>Definitions that follow the specification, and concrete inputs\<close>

text \<open>
  The score as section 4.1 of the specification words it: \<open>Q \<cdot> K\<^sup>T\<close> scaled by
  \<open>head_size\<close> to the power \<open>-0.5\<close>, where \<open>head_size\<close> is the output dimension of the
  projections. It is stated here only to be compared with \<open>Head_scores\<close>.
\<close>

definition spec_scores :: "Head \<Rightarrow> real tensor \<Rightarrow> error + real tensor" where
  "spec_scores h x =
     and_then (Linear_forward (Head_key h) x) (\<lambda>k.
     and_then (Linear_forward (Head_query h) x) (\<lambda>q.
     and_then (transpose_last2 k) (\<lambda>kT.
     and_then (matmul q kT) (\<lambda>qk.
     and_then (pow_float (out_features (Head_key h)) (- 0.5)) (\<lambda>c.
     Inr (mul_scalar qk c))))))"

text \<open>
  The block as section 4.4 of the specification words it:
  \<open>x' = x + MultiHeadAttention(LayerNorm(x))\<close>, \<open>x'' = x' + FeedForwardBlock(LayerNorm(x'))\<close>.
  \<open>residual nrm sub x\<close> is \<open>x + sub(nrm(x))\<close>.
\<close>

definition residual ::
  "(real tensor \<Rightarrow> error + real tensor) \<Rightarrow> (real tensor \<Rightarrow> error + real tensor)
     \<Rightarrow> real tensor \<Rightarrow> error + real tensor" where
  "residual nrm sub x = and_then (and_then (nrm x) sub) (tensor_add x)"

definition spec_block ::
  "(real tensor \<Rightarrow> nat list \<Rightarrow> real) \<Rightarrow> Block \<Rightarrow> real tensor \<Rightarrow> error + real tensor" where
  "spec_block noise b x =
     and_then (residual (LayerNorm_forward (Block_ln1 b)) (MultiHeadAttention_forward noise (Block_sa b)) x)
       (residual (LayerNorm_forward (Block_ln2 b)) (FeedFoward_forward noise (Block_ffwd b)))"

text \<open>The entry of a result at an index, for statements about single entries.\<close>

definition entry :: "error + 'a tensor \<Rightarrow> nat list \<Rightarrow> error + 'a" where
  "entry r ix = (case r of Inl e \<Rightarrow> Inl e | Inr t \<Rightarrow> Inr (el t ix))"

text \<open>
  A concrete head of the notebook's configuration (\<open>head_size = 512 // 6 = 85\<close>) whose
  key and query weights are 1 at \<open>[0][0]\<close> and 0 elsewhere, and a one-token input
  whose only non-zero feature is the first.
\<close>

definition unit_init :: init where
  "unit_init p j k = (if j = 0 \<and> k = 0 then 1 else 0)"

definition unit_head :: Head where
  "unit_head =
     \<lparr>Head_key = \<lparr>in_features = 512, out_features = 85, weight = unit_init [0, 0], bias = None\<rparr>,
      Head_query = \<lparr>in_features = 512, out_features = 85, weight = unit_init [1, 0], bias = None\<rparr>,
      Head_value = \<lparr>in_features = 512, out_features = 85, weight = unit_init [2, 0], bias = None\<rparr>,
      Head_tril = tril_ones 128, Head_training = False\<rparr>"

definition unit_input :: "real tensor" where
  "unit_input = \<lparr>shape = [1, 1, 512], el = (\<lambda>ix. if last ix = 0 then 1 else 0)\<rparr>"

definition two_token_input :: "real tensor" where
  "two_token_input = \<lparr>shape = [1, 2, 512], el = (\<lambda>ix. if last ix = 0 then 1 else 0)\<rparr>"

definition no_noise :: "real tensor \<Rightarrow> nat list \<Rightarrow> real" where
  "no_noise x ix = 0"

text \<open>
  The scenario of section 8 of the specification: \<open>vocab_size = 5\<close>, \<open>d_model = 4\<close>,
  \<open>n_head = 2\<close>, \<open>seq_len = 3\<close>, \<open>n_layer = 1\<close>, the seed \<open>[2]\<close> (the start token). The sampler
  below always returns id 3, the tokenizer's end-of-sequence token, and counts its draws.
\<close>

definition spec_globals :: globals where
  "spec_globals = \<lparr>G_vocab_size = 5, G_seq_len = 3, G_d_model = 4, G_n_head = 2, G_n_layer = 1\<rparr>"

definition spec_model :: TextGenerationModel where
  "spec_model = TextGenerationModel_eval (projr (TextGenerationModel_init spec_globals unit_init))"

definition spec_seed :: "int tensor" where
  "spec_seed = \<lparr>shape = [1, 1], el = (\<lambda>ix. 2)\<rparr>"

definition eos_sampler :: "nat \<Rightarrow> real list \<Rightarrow> nat \<times> nat" where
  "eos_sampler g r = (3, Suc g)"

definition zero_loss :: "real tensor \<Rightarrow> int tensor \<Rightarrow> error + real" where
  "zero_loss logits targets = Inr 0"

text \<open>
  A second sampler that always draws id 3, with an integer for its state, and the
  relation between the two samplers' states: the same number of draws so far.
\<close>

definition eos_sampler_int :: "int \<Rightarrow> real list \<Rightarrow> nat \<times> int" where
  "eos_sampler_int g r = (3, g + 1)"

definition same_count :: "nat \<Rightarrow> int \<Rightarrow> bool" where
  "same_count g h \<longleftrightarrow> int g = h"

text \<open>
  The call in the notebook's last cell: \<^verbatim>\<open>context = torch.zeros((1, 1))\<close> filled with 2,
  \<^verbatim>\<open>m.generate(context, max_new_tokens=1000)\<close>.
\<close>

definition notebook_context :: "int tensor" where
  "notebook_context = \<lparr>shape = [1, 1], el = (\<lambda>ix. 2)\<rparr>"

text \<open>
  A model call that writes down its own arguments: \<open>recording fwd\<close> behaves as \<open>fwd\<close> on
  the first component of the random source and appends the tensor it was called with to
  the second. \<open>beside_log draw\<close> is the sampler \<open>draw\<close> on such a pair; it leaves the record
  alone. The record is written by the callee, so it holds what \<^verbatim>\<open>generate\<close> passed.
\<close>

definition recording ::
  "(int tensor \<Rightarrow> 'g \<Rightarrow> error + real tensor \<times> 'g)
     \<Rightarrow> int tensor \<Rightarrow> 'g \<times> int tensor list \<Rightarrow> error + real tensor \<times> ('g \<times> int tensor list)" where
  "recording fwd c s =
     (case fwd c (fst s) of Inl e \<Rightarrow> Inl e | Inr (lg, g') \<Rightarrow> Inr (lg, (g', snd s @ [c])))"

definition beside_log :: "('g \<Rightarrow> real list \<Rightarrow> nat \<times> 'g) \<Rightarrow> 'g \<times> 'l \<Rightarrow> real list \<Rightarrow> nat \<times> ('g \<times> 'l)" where
  "beside_log draw s r = (case draw (fst s) r of (k, g') \<Rightarrow> (k, (g', snd s)))"

section \<open>Properties\<close>

subsection \<open>Auxiliary facts\<close>

lemma and_then_Inr [simp]: "and_then (Inr v) f = f v"
  by (simp add: and_then_def)

lemma and_then_Inl [simp]: "and_then (Inl e) f = Inl e"
  by (simp add: and_then_def)

lemma set_indices: "set (indices s) = {ix. list_all2 (<) ix s}"
proof (induction s)
  case Nil
  then show ?case by auto
next
  case (Cons n ns)
  show ?case
  proof (rule set_eqI)
    fix ix
    show "ix \<in> set (indices (n # ns)) \<longleftrightarrow> ix \<in> {ix. list_all2 (<) ix (n # ns)}"
      using Cons by (cases ix) auto
  qed
qed

lemma Linear_forward_rank3:
  assumes "shape x = [B, T, C]" "in_features l = C"
  shows "Linear_forward l x = Inr \<lparr>shape = [B, T, out_features l],
            el = (\<lambda>ix. (\<Sum>k\<leftarrow>[0..<C]. el x (butlast ix @ [k]) * weight l (last ix) k)
                           + (case bias l of None \<Rightarrow> 0 | Some b \<Rightarrow> b (last ix)))\<rparr>"
  using assms by (simp add: Linear_forward_def)

lemma fin_vals_nonempty: "Fin v \<in> set r \<Longrightarrow> fin_vals r \<noteq> []"
  by (induction r rule: fin_vals.induct) auto

lemma exp_shift_nonneg: "0 \<le> exp_shift m e"
  by (cases e) (simp_all add: exp_shift_def)

lemma exp_shift_sum_pos: "Fin v \<in> set r \<Longrightarrow> 0 < (\<Sum>e\<leftarrow>r. exp_shift m e)"
proof (induction r)
  case Nil
  then show ?case by simp
next
  case (Cons a r)
  have nn: "0 \<le> (\<Sum>e\<leftarrow>r. exp_shift m e)"
    by (rule sum_list_nonneg) (auto simp: exp_shift_nonneg)
  show ?case
  proof (cases "a = Fin v")
    case True
    then show ?thesis using nn by (simp add: exp_shift_def add_pos_nonneg)
  next
    case False
    then have "0 < (\<Sum>e\<leftarrow>r. exp_shift m e)" using Cons by auto
    then show ?thesis using exp_shift_nonneg [of m a] by simp
  qed
qed

lemma sum_list_delta0:
  "0 < n \<Longrightarrow> (\<Sum>k\<leftarrow>[0..<n]. (if k = 0 then a else 0) * f k) = a * f 0" for a :: real
proof -
  assume n: "0 < n"
  have "map (\<lambda>k. (if k = 0 then a else 0) * f k) [Suc 0..<n] = map (\<lambda>k. 0) [Suc 0..<n]"
    by simp
  then have "(\<Sum>k\<leftarrow>[Suc 0..<n]. (if k = 0 then a else 0) * f k) = 0"
    by (simp only: sum_list_0)
  then show ?thesis using n by (simp add: upt_conv_Cons)
qed

lemma sum_list_delta0_both:
  "0 < n \<Longrightarrow> (\<Sum>k\<leftarrow>[0..<n]. (if k = 0 then a else 0) * (if k = 0 then b else 0)) = a * b"
  for a :: real
  using sum_list_delta0 [of n a "\<lambda>k. if k = 0 then b else 0"] by simp

lemma powr_neg_half: "0 < x \<Longrightarrow> x powr (- 0.5) = 1 / sqrt x" for x :: real
proof -
  assume x: "0 < x"
  have e: "(- 0.5 :: real) = - (1 / 2)" by simp
  have "x powr (- (1 / 2)) = inverse (x powr (1 / 2))" by (rule powr_minus)
  also have "\<dots> = inverse (sqrt x)" using x by (simp only: powr_half_sqrt less_imp_le)
  finally show ?thesis by (simp only: e inverse_eq_divide)
qed

subsection \<open>The attention head\<close>

text \<open>A head built by the constructor has the shapes the theorems below ask for.\<close>

lemma Head_init_fields:
  assumes "Head_init G init p head_size = Inr h"
  shows "in_features (Head_key h) = nat (G_d_model G) \<and> in_features (Head_query h) = nat (G_d_model G)
    \<and> in_features (Head_value h) = nat (G_d_model G)
    \<and> out_features (Head_key h) = nat head_size \<and> out_features (Head_query h) = nat head_size
    \<and> out_features (Head_value h) = nat head_size
    \<and> Head_tril h = tril_ones (nat (G_seq_len G)) \<and> Head_training h"
  using assms by (auto simp: Head_init_def nn_Linear_def split: if_splits)

lemma unit_head_built:
  "Head_init notebook_globals unit_init [] 85 = Inr (unit_head\<lparr>Head_training := True\<rparr>)"
  by (simp add: Head_init_def nn_Linear_def notebook_globals_def unit_head_def)

lemma Head_scores_shape:
  assumes "shape x = [B, T, C]" "in_features (Head_key h) = C" "in_features (Head_query h) = C"
    "out_features (Head_key h) = out_features (Head_query h)" "0 < C"
  shows "\<exists>W. Head_scores h x = Inr W \<and> shape W = [B, T, T]"
  using assms
  by (simp add: Head_scores_def Linear_forward_rank3 transpose_last2_def matmul_def batch_dims_def
      pow_float_def mul_scalar_def)

lemma masked_scores:
  assumes W: "shape W = [B, T, T]" and T: "T \<le> n"
  shows "\<exists>M. and_then (slice2 (tril_ones n) T T) (\<lambda>tr. masked_fill W (eq_scalar tr 0) NegInf) = Inr M
     \<and> shape M = [B, T, T]
     \<and> (\<forall>b i j. i < T \<and> j < T \<longrightarrow> el M [b, i, j] = (if i < j then NegInf else Fin (el W [b, i, j])))"
  using assms
  by (auto simp add: slice2_def tril_ones_def eq_scalar_def masked_fill_def broadcast_shapes_def
      bc_index_def min_absorb1)

lemma softmax_masked:
  assumes M: "shape M = [B, T, T]"
      and el: "\<forall>b i j. i < T \<and> j < T \<longrightarrow> el M [b, i, j] = (if i < j then NegInf else Fin (W b i j))"
  shows "\<exists>S. F_softmax M = Inr S \<and> shape S = [B, T, T]
     \<and> (\<forall>b i j. i < T \<and> j < T \<and> i < j \<longrightarrow> el S [b, i, j] = 0)
     \<and> (\<forall>b i. i < T \<longrightarrow> (\<Sum>j\<leftarrow>[0..<T]. el S [b, i, j]) = 1)"
proof -
  have row: "row_of M [b, i] = map (\<lambda>k. el M [b, i, k]) [0..<T]" for b i
    by (simp add: row_of_def M)
  have fin: "Fin (W b i i) \<in> set (row_of M [b, i])" if "i < T" for b i
  proof -
    have "el M [b, i, i] = Fin (W b i i)" using el that by simp
    moreover have "i \<in> set [0..<T]" using that by simp
    ultimately show ?thesis unfolding row by (metis (mono_tags, lifting) image_eqI list.set_map)
  qed
  have defd: "list_all (\<lambda>pre. row_defined (row_of M pre)) (indices (butlast (shape M)))"
  proof -
    have "row_defined (row_of M pre)" if "pre \<in> set (indices [B, T])" for pre
    proof -
      from that have "pre \<in> {ix. list_all2 (<) ix [B, T]}" by (simp only: set_indices)
      then have "list_all2 (<) pre [B, T]" by simp
      then obtain b i where pre: "pre = [b, i]" and "i < T"
        by (auto simp: list_all2_Cons2)
      then show ?thesis using fin [of i b] fin_vals_nonempty
        by (auto simp: row_defined_def)
    qed
    then show ?thesis by (simp add: M list_all_iff)
  qed
  define S where "S = \<lparr>shape = shape M,
                el = (\<lambda>ix. let r = row_of M (butlast ix); m = max_list (fin_vals r)
                           in exp_shift m (el M ix) / (\<Sum>e\<leftarrow>r. exp_shift m e))\<rparr>"
  have S: "F_softmax M = Inr S"
    using defd by (simp add: F_softmax_def S_def M)
  have zero: "el S [b, i, j] = 0" if "i < T" "j < T" "i < j" for b i j
    using that el by (simp add: S_def exp_shift_def Let_def)
  have one: "(\<Sum>j\<leftarrow>[0..<T]. el S [b, i, j]) = 1" if "i < T" for b i
  proof -
    define m where "m = max_list (fin_vals (row_of M [b, i]))"
    define Z where "Z = (\<Sum>e\<leftarrow>row_of M [b, i]. exp_shift m e)"
    have Zpos: "0 < Z" unfolding Z_def using fin [OF that] by (rule exp_shift_sum_pos)
    have Zeq: "Z = (\<Sum>j\<leftarrow>[0..<T]. exp_shift m (el M [b, i, j]))"
      by (simp add: Z_def row o_def)
    have "(\<Sum>j\<leftarrow>[0..<T]. el S [b, i, j]) = (\<Sum>j\<leftarrow>[0..<T]. exp_shift m (el M [b, i, j]) / Z)"
      by (simp add: S_def Let_def m_def Z_def)
    also have "\<dots> = (\<Sum>j\<leftarrow>[0..<T]. exp_shift m (el M [b, i, j])) / Z"
      by (simp add: divide_inverse sum_list_mult_const)
    also have "\<dots> = 1" using Zpos Zeq by simp
    finally show ?thesis .
  qed
  show ?thesis using S zero one by (auto simp: S_def M)
qed

lemma Head_weights_rows:
  assumes x: "shape x = [B, T, C]" and C: "0 < C"
    and k: "in_features (Head_key h) = C" and q: "in_features (Head_query h) = C"
    and kq: "out_features (Head_key h) = out_features (Head_query h)"
    and tril: "Head_tril h = tril_ones n" and T: "T \<le> n"
    and ev: "\<not> Head_training h"
  shows "\<exists>S. Head_weights noise h x = Inr S \<and> shape S = [B, T, T]
     \<and> (\<forall>b i j. i < T \<and> j < T \<and> i < j \<longrightarrow> el S [b, i, j] = 0)
     \<and> (\<forall>b i. i < T \<longrightarrow> (\<Sum>j\<leftarrow>[0..<T]. el S [b, i, j]) = 1)"
proof -
  obtain W where W: "Head_scores h x = Inr W" "shape W = [B, T, T]"
    using Head_scores_shape [OF x k q kq C] by blast
  obtain M where M: "and_then (slice2 (tril_ones n) T T) (\<lambda>tr. masked_fill W (eq_scalar tr 0) NegInf) = Inr M"
    "shape M = [B, T, T]"
    "\<forall>b i j. i < T \<and> j < T \<longrightarrow> el M [b, i, j] = (if i < j then NegInf else Fin (el W [b, i, j]))"
    using masked_scores [OF W(2) T] by blast
  obtain S where S: "F_softmax M = Inr S" "shape S = [B, T, T]"
     "\<forall>b i j. i < T \<and> j < T \<and> i < j \<longrightarrow> el S [b, i, j] = 0"
     "\<forall>b i. i < T \<longrightarrow> (\<Sum>j\<leftarrow>[0..<T]. el S [b, i, j]) = 1"
    using softmax_masked [OF M(2), of "\<lambda>b i j. el W [b, i, j]"] M(3) by blast
  obtain tr where tr: "slice2 (tril_ones n) T T = Inr tr"
    by (auto simp: slice2_def tril_ones_def)
  have "Head_weights noise h x = Inr S"
    using W(1) M(1) S(1) ev x tril tr
    by (simp add: Head_weights_def nn_Dropout_def)
  then show ?thesis using S by blast
qed

text \<open>
  Claim C1. For an input of shape \<open>(B, T, C)\<close> with \<open>T\<close> at most the \<open>seq_len\<close> of the
  stored mask, a head in evaluation mode produces normalized weights \<open>S\<close> of shape
  \<open>(B, T, T)\<close> with \<open>S[b,i,j] = 0\<close> for every column \<open>j > i\<close>, and every row of \<open>S\<close> sums
  to 1. The weights are real numbers here, so the sum is exactly 1.
\<close>

theorem Head_weights_causal_normalized:
  assumes "shape x = [B, T, C]" and "0 < C"
    and "in_features (Head_key h) = C" and "in_features (Head_query h) = C"
    and "out_features (Head_key h) = out_features (Head_query h)"
    and "Head_tril h = tril_ones n" and "T \<le> n"
    and "\<not> Head_training h"
  shows "\<exists>S. Head_weights noise h x = Inr S \<and> shape S = [B, T, T]
     \<and> (\<forall>b i j. i < T \<and> j < T \<and> i < j \<longrightarrow> el S [b, i, j] = 0)
     \<and> (\<forall>b i. i < T \<longrightarrow> (\<Sum>j\<leftarrow>[0..<T]. el S [b, i, j]) = 1)"
  using assms by (rule Head_weights_rows)

theorem Head_weights_causal_normalized_witness:
  "shape two_token_input = [1, 2, 512] \<and> (0 :: nat) < 512
   \<and> in_features (Head_key unit_head) = 512 \<and> in_features (Head_query unit_head) = 512
   \<and> out_features (Head_key unit_head) = out_features (Head_query unit_head)
   \<and> Head_tril unit_head = tril_ones 128 \<and> (2 :: nat) \<le> 128 \<and> \<not> Head_training unit_head
   \<and> (\<exists>S. Head_weights no_noise unit_head two_token_input = Inr S \<and> shape S = [1, 2, 2]
     \<and> (\<forall>b i j. i < 2 \<and> j < 2 \<and> i < j \<longrightarrow> el S [b, i, j] = 0)
     \<and> (\<forall>b i. i < 2 \<longrightarrow> (\<Sum>j\<leftarrow>[0..<2]. el S [b, i, j]) = 1))"
proof -
  have h: "shape two_token_input = [1, 2, 512]" "(0 :: nat) < 512"
    "in_features (Head_key unit_head) = 512" "in_features (Head_query unit_head) = 512"
    "out_features (Head_key unit_head) = out_features (Head_query unit_head)"
    "Head_tril unit_head = tril_ones 128" "(2 :: nat) \<le> 128" "\<not> Head_training unit_head"
    by (simp_all add: two_token_input_def unit_head_def)
  show ?thesis
    using h Head_weights_causal_normalized [OF h, of no_noise] by blast
qed

text \<open>
  Claim C2. The claim says the scores are scaled by \<open>head_size\<close> to the power \<open>-0.5\<close>.
  \<open>Head.forward\<close> scales by the last dimension of its input, which is the embedding
  width: for the head of the notebook's configuration (input width 512, head size 85)
  and a one-token input, the code's score is \<open>1 / sqrt 512\<close> where the claimed formula
  gives \<open>1 / sqrt 85\<close>.
\<close>

theorem Head_scores_scaled_by_input_width:
  "entry (Head_scores unit_head unit_input) [0, 0, 0] = Inr (1 / sqrt 512)
   \<and> entry (spec_scores unit_head unit_input) [0, 0, 0] = Inr (1 / sqrt 85)
   \<and> 1 / sqrt 512 \<noteq> 1 / sqrt (85 :: real)"
proof -
  have p1: "(512 :: real) powr (- 0.5) = 1 / sqrt 512" by (rule powr_neg_half) simp
  have p2: "(85 :: real) powr (- 0.5) = 1 / sqrt 85" by (rule powr_neg_half) simp
  have a: "entry (Head_scores unit_head unit_input) [0, 0, 0] = Inr (1 / sqrt 512)"
    using p1
    by (simp add: unit_head_def entry_def Head_scores_def Linear_forward_def unit_input_def
        unit_init_def transpose_last2_def matmul_def batch_dims_def pow_float_def mul_scalar_def
        sum_list_delta0_both sum_list_delta0 del: upt_rec_numeral)
  have b: "entry (spec_scores unit_head unit_input) [0, 0, 0] = Inr (1 / sqrt 85)"
    using p2
    by (simp add: unit_head_def entry_def spec_scores_def Linear_forward_def unit_input_def
        unit_init_def transpose_last2_def matmul_def batch_dims_def pow_float_def mul_scalar_def
        sum_list_delta0_both sum_list_delta0 del: upt_rec_numeral)
  have c: "1 / sqrt 512 \<noteq> 1 / sqrt (85 :: real)" by simp
  show ?thesis using a b c by blast
qed

text \<open>
  Claim C7. For a one-token input (\<open>T = 1\<close>) a head in evaluation mode returns exactly
  the value projection of that token: the output has the shape of \<open>V\<close> and the same
  entries.
\<close>

theorem Head_forward_single_token:
  assumes x: "shape x = [B, 1, C]" and C: "0 < C"
    and k: "in_features (Head_key h) = C" and q: "in_features (Head_query h) = C"
    and kq: "out_features (Head_key h) = out_features (Head_query h)"
    and v: "in_features (Head_value h) = C"
    and tril: "Head_tril h = tril_ones n" and n: "1 \<le> n"
    and ev: "\<not> Head_training h"
  shows "\<exists>V out. Linear_forward (Head_value h) x = Inr V \<and> Head_forward noise h x = Inr out
     \<and> shape out = shape V \<and> (\<forall>b j. el out [b, 0, j] = el V [b, 0, j])"
proof -
  obtain S where S: "Head_weights noise h x = Inr S" "shape S = [B, 1, 1]"
     "\<forall>b i. i < 1 \<longrightarrow> (\<Sum>j\<leftarrow>[0..<1]. el S [b, i, j]) = 1"
    using Head_weights_rows [OF x C k q kq tril n ev, of noise] by blast
  have one: "el S [b, 0, 0] = 1" for b
    using S(3) by simp
  define V where "V = \<lparr>shape = [B, 1, out_features (Head_value h)],
            el = (\<lambda>ix. (\<Sum>k\<leftarrow>[0..<C]. el x (butlast ix @ [k]) * weight (Head_value h) (last ix) k)
                           + (case bias (Head_value h) of None \<Rightarrow> 0 | Some b \<Rightarrow> b (last ix)))\<rparr>"
  have V: "Linear_forward (Head_value h) x = Inr V"
    unfolding V_def by (rule Linear_forward_rank3 [OF x v])
  define out where "out = \<lparr>shape = [B, 1, out_features (Head_value h)],
                el = (\<lambda>ix. \<Sum>k\<leftarrow>[0..<1].
                        el S (butlast ix @ [k]) * el V (batch_dims ix @ [k, last ix]))\<rparr>"
  have mm: "matmul S V = Inr out"
    by (simp add: matmul_def S(2) V_def out_def batch_dims_def)
  have fw: "Head_forward noise h x = Inr out"
    by (simp add: Head_forward_def S(1) V mm)
  have "el out [b, 0, j] = el V [b, 0, j]" for b j
    by (simp add: out_def batch_dims_def one)
  then show ?thesis using V fw by (auto simp: out_def V_def)
qed

theorem Head_forward_single_token_witness:
  "shape unit_input = [1, 1, 512] \<and> (0 :: nat) < 512
   \<and> in_features (Head_key unit_head) = 512 \<and> in_features (Head_query unit_head) = 512
   \<and> out_features (Head_key unit_head) = out_features (Head_query unit_head)
   \<and> in_features (Head_value unit_head) = 512
   \<and> Head_tril unit_head = tril_ones 128 \<and> (1 :: nat) \<le> 128 \<and> \<not> Head_training unit_head
   \<and> (\<exists>V out. Linear_forward (Head_value unit_head) unit_input = Inr V
         \<and> Head_forward no_noise unit_head unit_input = Inr out
         \<and> shape out = shape V \<and> (\<forall>b j. el out [b, 0, j] = el V [b, 0, j]))"
proof -
  have h: "shape unit_input = [1, 1, 512]" "(0 :: nat) < 512"
    "in_features (Head_key unit_head) = 512" "in_features (Head_query unit_head) = 512"
    "out_features (Head_key unit_head) = out_features (Head_query unit_head)"
    "in_features (Head_value unit_head) = 512"
    "Head_tril unit_head = tril_ones 128" "(1 :: nat) \<le> 128" "\<not> Head_training unit_head"
    by (simp_all add: unit_input_def unit_head_def)
  show ?thesis
    using h Head_forward_single_token [OF h, of no_noise] by blast
qed

subsection \<open>Results of calls that return\<close>

lemma and_then_eq_Inr: "and_then m f = Inr y \<longleftrightarrow> (\<exists>v. m = Inr v \<and> f v = Inr y)"
  by (cases m) simp_all

lemma sequence_map_Inr: "(\<And>x. x \<in> set xs \<Longrightarrow> f x = Inr (g x)) \<Longrightarrow> sequence (map f xs) = Inr (map g xs)"
  by (induction xs) simp_all

lemma sequence_eq_Inr: "sequence rs = Inr vs \<Longrightarrow> list_all2 (\<lambda>r v. r = Inr v) rs vs"
  by (induction rs arbitrary: vs) (auto simp: and_then_eq_Inr)

lemma Linear_forward_Inr:
  "Linear_forward l x = Inr y \<Longrightarrow>
     shape x \<noteq> [] \<and> last (shape x) = in_features l \<and> shape y = butlast (shape x) @ [out_features l]"
  by (auto simp: Linear_forward_def split: if_splits)

lemma Head_scores_Inr:
  assumes "Head_scores h x = Inr W"
  shows "\<exists>B T C. shape x = [B, T, C] \<and> shape W = [B, T, T]"
proof -
  from assms obtain B T C where x: "shape x = [B, T, C]"
    by (auto simp: Head_scores_def split: list.splits)
  from assms x obtain k q kT qk where k: "Linear_forward (Head_key h) x = Inr k"
    and q: "Linear_forward (Head_query h) x = Inr q"
    and kT: "transpose_last2 k = Inr kT" and qk: "matmul q kT = Inr qk"
    and W: "shape W = shape qk"
    by (auto simp: Head_scores_def and_then_eq_Inr mul_scalar_def)
  have sk: "shape k = [B, T, out_features (Head_key h)]"
    using Linear_forward_Inr [OF k] x by simp
  have sq: "shape q = [B, T, out_features (Head_query h)]"
    using Linear_forward_Inr [OF q] x by simp
  have skT: "shape kT = [B, out_features (Head_key h), T]"
    using kT sk by (auto simp: transpose_last2_def batch_dims_def split: if_splits)
  have "shape qk = [B, T, T]"
    using qk sq skT by (auto simp: matmul_def split: if_splits)
  then show ?thesis using x W by simp
qed

lemma F_softmax_Inr: "F_softmax M = Inr S \<Longrightarrow> shape S = shape M"
  by (auto simp: F_softmax_def split: if_splits)

lemma masked_fill_Inr: "masked_fill W m v = Inr M \<Longrightarrow> shape M = shape W"
  by (auto simp: masked_fill_def split: if_splits)

lemma Head_weights_Inr:
  assumes "Head_weights noise h x = Inr S"
  shows "\<exists>B T C. shape x = [B, T, C] \<and> shape S = [B, T, T]"
proof -
  from assms obtain W where W: "Head_scores h x = Inr W"
    by (auto simp: Head_weights_def and_then_eq_Inr)
  then obtain B T C where x: "shape x = [B, T, C]" and sW: "shape W = [B, T, T]"
    using Head_scores_Inr by blast
  from assms W x obtain tr M S' where "masked_fill W (eq_scalar tr 0) NegInf = Inr M"
    and "F_softmax M = Inr S'" and "S = nn_Dropout (Head_training h) noise S'"
    by (auto simp: Head_weights_def and_then_eq_Inr)
  then have "shape S = [B, T, T]"
    using sW by (auto simp: nn_Dropout_def dest!: masked_fill_Inr F_softmax_Inr)
  then show ?thesis using x by simp
qed

lemma Head_forward_Inr:
  assumes "Head_forward noise h x = Inr out"
  shows "\<exists>B T. shape x = [B, T, in_features (Head_value h)]
            \<and> shape out = [B, T, out_features (Head_value h)]"
proof -
  from assms obtain S v where S: "Head_weights noise h x = Inr S"
    and v: "Linear_forward (Head_value h) x = Inr v" and mm: "matmul S v = Inr out"
    by (auto simp: Head_forward_def and_then_eq_Inr)
  obtain B T C where x: "shape x = [B, T, C]" and sS: "shape S = [B, T, T]"
    using Head_weights_Inr [OF S] by blast
  have C: "C = in_features (Head_value h)" and sv: "shape v = [B, T, out_features (Head_value h)]"
    using Linear_forward_Inr [OF v] x by simp_all
  have "shape out = [B, T, out_features (Head_value h)]"
    using mm sS sv by (auto simp: matmul_def split: if_splits)
  then show ?thesis using x C by simp
qed

lemma cat2_shape:
  assumes "shape a = pre @ [wa]" "shape b = pre @ [wb]"
  shows "\<exists>c. cat2 a b = Inr c \<and> shape c = pre @ [wa + wb]"
  using assms by (simp add: cat2_def)

lemma torch_cat_shape:
  assumes "ts \<noteq> []" "\<And>t. t \<in> set ts \<Longrightarrow> shape t = pre @ [w]"
  shows "\<exists>c. torch_cat ts = Inr c \<and> shape c = pre @ [length ts * w]"
  using assms
proof (induction ts rule: torch_cat.induct)
  case 1
  then show ?case by simp
next
  case (2 t)
  then show ?case by simp
next
  case (3 t u ts)
  have "\<exists>c. torch_cat (u # ts) = Inr c \<and> shape c = pre @ [length (u # ts) * w]"
  proof (rule "3.IH")
    show "u # ts \<noteq> []" by simp
    show "shape t' = pre @ [w]" if "t' \<in> set (u # ts)" for t'
      by (rule "3.prems"(2)) (use that in simp)
  qed
  then obtain c where c: "torch_cat (u # ts) = Inr c" "shape c = pre @ [length (u # ts) * w]"
    by blast
  have "shape t = pre @ [w]" by (rule "3.prems"(2)) simp
  from cat2_shape [OF this c(2)] obtain d where "cat2 t c = Inr d" "shape d = pre @ [w + length (u # ts) * w]"
    by blast
  then show ?case using c(1) by simp
qed

subsection \<open>Constructors\<close>

lemma Head_init_ok:
  assumes "0 \<le> G_d_model G" "0 \<le> head_size" "0 \<le> G_seq_len G"
  shows "\<exists>h. Head_init G init p head_size = Inr h"
  using assms by (simp add: Head_init_def nn_Linear_def)

lemma MultiHeadAttention_init_ok:
  assumes d: "0 \<le> G_d_model G" and hs: "0 \<le> head_size" and n: "0 \<le> G_seq_len G"
  shows "\<exists>m. MultiHeadAttention_init G init p num_heads head_size = Inr m
     \<and> length (MHA_heads m) = nat num_heads
     \<and> list_all (\<lambda>h. in_features (Head_key h) = nat (G_d_model G)
                   \<and> in_features (Head_query h) = nat (G_d_model G)
                   \<and> in_features (Head_value h) = nat (G_d_model G)
                   \<and> out_features (Head_key h) = nat head_size
                   \<and> out_features (Head_query h) = nat head_size
                   \<and> out_features (Head_value h) = nat head_size
                   \<and> Head_tril h = tril_ones (nat (G_seq_len G))) (MHA_heads m)
     \<and> in_features (MHA_proj m) = nat (G_d_model G)
     \<and> out_features (MHA_proj m) = nat (G_d_model G)"
proof -
  define f where "f = (\<lambda>i. Head_init G init (p @ [0, i]) head_size)"
  define g where "g = (\<lambda>i. projr (f i))"
  have fg: "f i = Inr (g i)" for i
    using Head_init_ok [OF d hs n, of init "p @ [0, i]"] by (auto simp: f_def g_def)
  have seq: "sequence (map f [0..<nat num_heads]) = Inr (map g [0..<nat num_heads])"
    by (rule sequence_map_Inr) (rule fg)
  define m where "m = \<lparr>MHA_heads = map g [0..<nat num_heads],
     MHA_proj = \<lparr>in_features = nat (G_d_model G), out_features = nat (G_d_model G),
       weight = init ((p @ [1]) @ [0]), bias = Some (\<lambda>j. init ((p @ [1]) @ [1]) j 0)\<rparr>,
     MHA_training = True\<rparr>"
  have m: "MultiHeadAttention_init G init p num_heads head_size = Inr m"
    using seq d by (simp add: MultiHeadAttention_init_def f_def [symmetric] nn_Linear_def m_def)
  have fields: "in_features (Head_key h) = nat (G_d_model G)
                   \<and> in_features (Head_query h) = nat (G_d_model G)
                   \<and> in_features (Head_value h) = nat (G_d_model G)
                   \<and> out_features (Head_key h) = nat head_size
                   \<and> out_features (Head_query h) = nat head_size
                   \<and> out_features (Head_value h) = nat head_size
                   \<and> Head_tril h = tril_ones (nat (G_seq_len G))" if "h \<in> set (MHA_heads m)" for h
  proof -
    from that obtain i where "h = g i" by (auto simp: m_def)
    then have "Head_init G init (p @ [0, i]) head_size = Inr h" using fg [of i] by (simp add: f_def)
    from Head_init_fields [OF this] show ?thesis by simp
  qed
  show ?thesis
    using m fields by (auto simp: list_all_iff) (simp_all add: m_def)
qed

lemma Block_init_ok:
  assumes G: "0 \<le> G_d_model G" "0 \<le> G_seq_len G" and d: "0 \<le> d_model" and n: "0 < n_head"
  shows "\<exists>b. Block_init G init p d_model n_head = Inr b
     \<and> length (MHA_heads (Block_sa b)) = nat n_head
     \<and> list_all (\<lambda>h. out_features (Head_key h) = nat (d_model div n_head)
                   \<and> out_features (Head_query h) = nat (d_model div n_head)
                   \<and> out_features (Head_value h) = nat (d_model div n_head)) (MHA_heads (Block_sa b))"
proof -
  have hs: "0 \<le> d_model div n_head" using d n by (simp add: pos_imp_zdiv_nonneg_iff)
  obtain m where m: "MultiHeadAttention_init G init (p @ [0]) n_head (d_model div n_head) = Inr m"
     "length (MHA_heads m) = nat n_head"
     "list_all (\<lambda>h. in_features (Head_key h) = nat (G_d_model G)
                   \<and> in_features (Head_query h) = nat (G_d_model G)
                   \<and> in_features (Head_value h) = nat (G_d_model G)
                   \<and> out_features (Head_key h) = nat (d_model div n_head)
                   \<and> out_features (Head_query h) = nat (d_model div n_head)
                   \<and> out_features (Head_value h) = nat (d_model div n_head)
                   \<and> Head_tril h = tril_ones (nat (G_seq_len G))) (MHA_heads m)"
    using MultiHeadAttention_init_ok [OF G(1) hs G(2), of init "p @ [0]" n_head] by blast
  have "\<exists>b. Block_init G init p d_model n_head = Inr b \<and> Block_sa b = m"
    using m(1) d n by (simp add: Block_init_def FeedFoward_init_def nn_Linear_def nn_LayerNorm_def)
  then show ?thesis using m(2,3) by (auto simp: list_all_iff)
qed

lemma Block_init_built:
  assumes G: "0 \<le> G_d_model G" "0 \<le> G_seq_len G" and d: "0 \<le> d_model" and n: "0 < n_head"
  shows "\<exists>b. Block_init G init p d_model n_head = Inr b
     \<and> length (MHA_heads (Block_sa b)) = nat n_head
     \<and> list_all (head_fits (nat (G_d_model G)) (nat (d_model div n_head)) (nat (G_seq_len G)))
          (MHA_heads (Block_sa b))
     \<and> list_all (\<lambda>h. out_features (Head_key h) = nat (d_model div n_head)) (MHA_heads (Block_sa b))
     \<and> in_features (MHA_proj (Block_sa b)) = nat (G_d_model G)
     \<and> out_features (MHA_proj (Block_sa b)) = nat (G_d_model G)"
proof -
  have hs: "0 \<le> d_model div n_head" using d n by (simp add: pos_imp_zdiv_nonneg_iff)
  obtain m where m: "MultiHeadAttention_init G init (p @ [0]) n_head (d_model div n_head) = Inr m"
     "length (MHA_heads m) = nat n_head"
     "list_all (\<lambda>h. in_features (Head_key h) = nat (G_d_model G)
                   \<and> in_features (Head_query h) = nat (G_d_model G)
                   \<and> in_features (Head_value h) = nat (G_d_model G)
                   \<and> out_features (Head_key h) = nat (d_model div n_head)
                   \<and> out_features (Head_query h) = nat (d_model div n_head)
                   \<and> out_features (Head_value h) = nat (d_model div n_head)
                   \<and> Head_tril h = tril_ones (nat (G_seq_len G))) (MHA_heads m)"
     "in_features (MHA_proj m) = nat (G_d_model G)" "out_features (MHA_proj m) = nat (G_d_model G)"
    using MultiHeadAttention_init_ok [OF G(1) hs G(2), of init "p @ [0]" n_head] by blast
  have "\<exists>b. Block_init G init p d_model n_head = Inr b \<and> Block_sa b = m"
    using m(1) d n by (simp add: Block_init_def FeedFoward_init_def nn_Linear_def nn_LayerNorm_def)
  then show ?thesis using m(2,3,4,5) by (auto simp: list_all_iff head_fits_def)
qed

text \<open>
  Claim C4, as amended. No configuration error exists in the code. For every
  configuration with non-negative sizes and \<open>n_head > 0\<close>, whether or not \<open>n_head\<close> divides
  \<open>d_model\<close>, the constructor of \<open>Block\<close> returns a block with \<open>n_head\<close> heads whose
  projections all have width \<open>d_model // n_head\<close>, the floor of the quotient.
\<close>

theorem Block_init_floor_head_size:
  assumes "0 \<le> G_d_model G" and "0 \<le> G_seq_len G" and "0 \<le> d_model" and "0 < n_head"
  shows "\<exists>b. Block_init G init p d_model n_head = Inr b
     \<and> length (MHA_heads (Block_sa b)) = nat n_head
     \<and> list_all (\<lambda>h. out_features (Head_key h) = nat (d_model div n_head)
                   \<and> out_features (Head_query h) = nat (d_model div n_head)
                   \<and> out_features (Head_value h) = nat (d_model div n_head)) (MHA_heads (Block_sa b))"
proof -
  obtain b where b: "Block_init G init p d_model n_head = Inr b"
     "length (MHA_heads (Block_sa b)) = nat n_head"
     "list_all (head_fits (nat (G_d_model G)) (nat (d_model div n_head)) (nat (G_seq_len G)))
          (MHA_heads (Block_sa b))"
     "list_all (\<lambda>h. out_features (Head_key h) = nat (d_model div n_head)) (MHA_heads (Block_sa b))"
    using Block_init_built [OF assms, of init p] by blast
  show ?thesis using b by (auto simp: list_all_iff head_fits_def)
qed

text \<open>The amended claim at \<open>d_model = 512\<close>, \<open>n_head = 8\<close>.\<close>

theorem Block_init_floor_head_size_witness:
  "(0 :: int) \<le> G_d_model notebook_globals \<and> 0 \<le> G_seq_len notebook_globals \<and> (0 :: int) \<le> 512
   \<and> (0 :: int) < 8
   \<and> (\<exists>b. Block_init notebook_globals unit_init [] 512 8 = Inr b
     \<and> length (MHA_heads (Block_sa b)) = nat 8
     \<and> list_all (\<lambda>h. out_features (Head_key h) = nat (512 div 8)
                   \<and> out_features (Head_query h) = nat (512 div 8)
                   \<and> out_features (Head_value h) = nat (512 div 8)) (MHA_heads (Block_sa b)))"
proof -
  have h: "(0 :: int) \<le> G_d_model notebook_globals" "0 \<le> G_seq_len notebook_globals"
    "(0 :: int) \<le> 512" "(0 :: int) < 8"
    by (simp_all add: notebook_globals_def)
  show ?thesis using h Block_init_floor_head_size [OF h, of unit_init "[]"] by blast
qed

text \<open>
  Claim C4 as stated fails for the notebook's own constants: 6 does not divide 512, and
  the constructor raises nothing; it returns a block whose six heads have width 85.
\<close>

theorem Block_init_no_ConfigurationError:
  "(512 :: int) mod 6 = 2
   \<and> \<not> isl (Block_init notebook_globals unit_init [] 512 6)
   \<and> map (\<lambda>h. out_features (Head_key h))
        (MHA_heads (Block_sa (projr (Block_init notebook_globals unit_init [] 512 6))))
      = [85, 85, 85, 85, 85, 85]"
proof -
  have G: "0 \<le> G_d_model notebook_globals" "0 \<le> G_seq_len notebook_globals"
    by (simp_all add: notebook_globals_def)
  obtain b where b: "Block_init notebook_globals unit_init [] 512 6 = Inr b"
     "length (MHA_heads (Block_sa b)) = nat 6"
     "list_all (\<lambda>h. out_features (Head_key h) = nat (512 div 6)) (MHA_heads (Block_sa b))"
    using Block_init_built [OF G, of 512 6 unit_init "[]"] by auto
  have "map (\<lambda>h. out_features (Head_key h)) (MHA_heads (Block_sa b))
      = replicate (length (MHA_heads (Block_sa b))) 85"
    using b(3) by (auto simp: list_all_iff map_replicate_const [symmetric] intro!: map_cong)
  also have "\<dots> = [85, 85, 85, 85, 85, 85]"
    by (simp add: b(2) eval_nat_numeral)
  finally show ?thesis using b(1) by simp
qed

subsection \<open>Shapes through the attention layer\<close>

lemma Head_weights_shape:
  assumes x: "shape x = [B, T, C]" and C: "0 < C"
    and k: "in_features (Head_key h) = C" and q: "in_features (Head_query h) = C"
    and kq: "out_features (Head_key h) = out_features (Head_query h)"
    and tril: "Head_tril h = tril_ones n" and T: "T \<le> n"
  shows "\<exists>S. Head_weights noise h x = Inr S \<and> shape S = [B, T, T]"
proof -
  obtain W where W: "Head_scores h x = Inr W" "shape W = [B, T, T]"
    using Head_scores_shape [OF x k q kq C] by blast
  obtain M where M: "and_then (slice2 (tril_ones n) T T) (\<lambda>tr. masked_fill W (eq_scalar tr 0) NegInf) = Inr M"
    "shape M = [B, T, T]"
    "\<forall>b i j. i < T \<and> j < T \<longrightarrow> el M [b, i, j] = (if i < j then NegInf else Fin (el W [b, i, j]))"
    using masked_scores [OF W(2) T] by blast
  obtain S where S: "F_softmax M = Inr S" "shape S = [B, T, T]"
    using softmax_masked [OF M(2), of "\<lambda>b i j. el W [b, i, j]"] M(3) by blast
  obtain tr where tr: "slice2 (tril_ones n) T T = Inr tr"
    by (auto simp: slice2_def tril_ones_def)
  have "Head_weights noise h x = Inr (nn_Dropout (Head_training h) noise S)"
    using W(1) M(1) S(1) x tril tr
    by (simp add: Head_weights_def)
  then show ?thesis using S(2) by (simp add: nn_Dropout_def)
qed

lemma Head_forward_shape:
  assumes x: "shape x = [B, T, C]" and C: "0 < C"
    and k: "in_features (Head_key h) = C" and q: "in_features (Head_query h) = C"
    and kq: "out_features (Head_key h) = out_features (Head_query h)"
    and v: "in_features (Head_value h) = C"
    and tril: "Head_tril h = tril_ones n" and T: "T \<le> n"
  shows "\<exists>out. Head_forward noise h x = Inr out \<and> shape out = [B, T, out_features (Head_value h)]"
proof -
  obtain S where S: "Head_weights noise h x = Inr S" "shape S = [B, T, T]"
    using Head_weights_shape [OF x C k q kq tril T] by blast
  show ?thesis
    using S by (simp add: Head_forward_def Linear_forward_rank3 [OF x v] matmul_def batch_dims_def)
qed

lemma MultiHeadAttention_forward_shape:
  assumes x: "shape x = [B, T, C]" and C: "0 < C" and T: "T \<le> n"
    and ne: "MHA_heads m \<noteq> []"
    and hd: "list_all (head_fits C hs n) (MHA_heads m)"
  shows "MultiHeadAttention_forward noise m x =
      (if length (MHA_heads m) * hs = in_features (MHA_proj m)
       then Inr (nn_Dropout (MHA_training m) noise (projr (Linear_forward (MHA_proj m)
               (projr (torch_cat (map (\<lambda>h. projr (Head_forward noise h x)) (MHA_heads m)))))))
       else Inl RuntimeError)"
    and "length (MHA_heads m) * hs = in_features (MHA_proj m) \<Longrightarrow>
       \<exists>y. MultiHeadAttention_forward noise m x = Inr y \<and> shape y = [B, T, out_features (MHA_proj m)]"
proof -
  define g where "g = (\<lambda>h. projr (Head_forward noise h x))"
  have fit: "head_fits C hs n h" if "h \<in> set (MHA_heads m)" for h
    using hd that by (simp add: list_all_iff)
  have hg: "Head_forward noise h x = Inr (g h) \<and> shape (g h) = [B, T] @ [hs]" if "h \<in> set (MHA_heads m)" for h
  proof -
    have f: "head_fits C hs n h" by (rule fit [OF that])
    have "\<exists>out. Head_forward noise h x = Inr out \<and> shape out = [B, T, out_features (Head_value h)]"
      by (rule Head_forward_shape [OF x C _ _ _ _ _ T]) (use f in \<open>simp_all add: head_fits_def\<close>)
    then show ?thesis using f by (auto simp: g_def head_fits_def)
  qed
  have seq: "sequence (map (\<lambda>h. Head_forward noise h x) (MHA_heads m)) = Inr (map g (MHA_heads m))"
    by (rule sequence_map_Inr) (simp add: hg)
  have "\<exists>c. torch_cat (map g (MHA_heads m)) = Inr c \<and> shape c = [B, T] @ [length (map g (MHA_heads m)) * hs]"
    by (rule torch_cat_shape) (use ne hg in auto)
  then obtain c where c: "torch_cat (map g (MHA_heads m)) = Inr c" "shape c = [B, T, length (MHA_heads m) * hs]"
    by auto
  show "MultiHeadAttention_forward noise m x =
      (if length (MHA_heads m) * hs = in_features (MHA_proj m)
       then Inr (nn_Dropout (MHA_training m) noise (projr (Linear_forward (MHA_proj m)
               (projr (torch_cat (map (\<lambda>h. projr (Head_forward noise h x)) (MHA_heads m)))))))
       else Inl RuntimeError)"
    using seq c by (simp add: MultiHeadAttention_forward_def g_def [symmetric] Linear_forward_def)
  show "\<exists>y. MultiHeadAttention_forward noise m x = Inr y \<and> shape y = [B, T, out_features (MHA_proj m)]"
    if "length (MHA_heads m) * hs = in_features (MHA_proj m)"
    using seq c that by (simp add: MultiHeadAttention_forward_def Linear_forward_def nn_Dropout_def)
qed

lemma notebook_attention_never_returns:
  assumes b: "Block_init notebook_globals init p 512 6 = Inr b"
  shows "isl (MultiHeadAttention_forward noise (Block_sa b) x)"
    and "isl (MultiHeadAttention_forward noise (MultiHeadAttention_eval (Block_sa b)) x)"
proof -
  have G: "0 \<le> G_d_model notebook_globals" "0 \<le> G_seq_len notebook_globals"
    by (simp_all add: notebook_globals_def)
  from Block_init_built [OF G, of 512 6 init p] b
  have len: "length (MHA_heads (Block_sa b)) = 6"
    and fits: "list_all (head_fits 512 85 128) (MHA_heads (Block_sa b))"
    and proj: "in_features (MHA_proj (Block_sa b)) = 512"
    by (simp_all add: notebook_globals_def)
  have gen: "isl (MultiHeadAttention_forward noise m x)"
    if len: "length (MHA_heads m) = 6" and fits: "list_all (head_fits 512 85 128) (MHA_heads m)"
      and proj: "in_features (MHA_proj m) = 512" for m
  proof (rule ccontr)
    assume "\<not> isl (MultiHeadAttention_forward noise m x)"
    then obtain y where "MultiHeadAttention_forward noise m x = Inr y"
      by (cases "MultiHeadAttention_forward noise m x") auto
    then obtain outs c z where seq: "sequence (map (\<lambda>h. Head_forward noise h x) (MHA_heads m)) = Inr outs"
      and cat: "torch_cat outs = Inr c" and lin: "Linear_forward (MHA_proj m) c = Inr z"
      by (auto simp: MultiHeadAttention_forward_def and_then_eq_Inr)
    have l2: "list_all2 (\<lambda>r v. r = Inr v) (map (\<lambda>h. Head_forward noise h x) (MHA_heads m)) outs"
      by (rule sequence_eq_Inr [OF seq])
    then have lo: "length outs = 6" using len by (auto dest: list_all2_lengthD)
    have nth: "Head_forward noise (MHA_heads m ! i) x = Inr (outs ! i)" if "i < 6" for i
      using list_all2_nthD [OF l2, of i] that len by simp
    from nth [of 0] obtain B T where x: "shape x = [B, T, in_features (Head_value (MHA_heads m ! 0))]"
      using Head_forward_Inr by (metis zero_less_numeral)
    have so: "shape t = [B, T] @ [85]" if "t \<in> set outs" for t
    proof -
      from that obtain i where i: "i < 6" "t = outs ! i" using lo by (auto simp: in_set_conv_nth)
      have "head_fits 512 85 128 (MHA_heads m ! i)"
        using fits i(1) len by (simp add: list_all_length)
      then have "out_features (Head_value (MHA_heads m ! i)) = 85" by (simp add: head_fits_def)
      then show ?thesis using Head_forward_Inr [OF nth [OF i(1)]] x i(2) by auto
    qed
    have "outs \<noteq> []" using lo by auto
    from torch_cat_shape [OF this so] cat have "shape c = [B, T, 510]" using lo by auto
    then show False using Linear_forward_Inr [OF lin] proj by simp
  qed
  show "isl (MultiHeadAttention_forward noise (Block_sa b) x)"
    by (rule gen [OF len fits proj])
  show "isl (MultiHeadAttention_forward noise (MultiHeadAttention_eval (Block_sa b)) x)"
    by (rule gen) (use len fits proj in \<open>simp_all add: MultiHeadAttention_eval_def list_all_iff head_fits_def Head_eval_def\<close>)
qed

subsection \<open>The generation loop\<close>

lemma slice_from_dim1_rank2:
  assumes "shape idx = [B, L]"
  shows "slice_from_dim1 idx s = Inr \<lparr>shape = [B, L - slice_start s L],
               el = (\<lambda>ix. el idx (ix[1 := ix ! 1 + slice_start s L]))\<rparr>"
  using assms by (simp add: slice_from_dim1_def)

lemma slice_start_neg: "0 < n \<Longrightarrow> L - slice_start (- n) L = min L (nat n)"
  by (auto simp: slice_start_def)

lemma torch_multinomial_Inr:
  assumes "torch_multinomial draw g probs = Inr (nxt, g')"
  shows "\<exists>B V. shape probs = [B, V] \<and> shape nxt = [B, 1]"
  using assms
  by (auto simp: torch_multinomial_def Let_def split: list.splits if_splits prod.splits)

lemma select_last_dim1_Inr:
  assumes "select_last_dim1 t = Inr u"
  shows "\<exists>B T V rest. shape t = B # T # V # rest \<and> shape u = B # V # rest"
  using assms by (auto simp: select_last_dim1_def split: list.splits if_splits)

lemma cat_dim1_Inr:
  assumes "cat_dim1 a b = Inr c" "shape a = [B, L]"
  shows "\<exists>w. shape b = [B, w] \<and> shape c = [B, L + w]
          \<and> (\<forall>i t. t < L \<longrightarrow> el c [i, t] = el a [i, t])
          \<and> (\<forall>i t. L \<le> t \<longrightarrow> el c [i, t] = el b [i, t - L])"
proof -
  from assms obtain B' w where b: "shape b = [B', w]"
    by (cases "shape b"; cases "tl (shape b)") (auto simp: cat_dim1_def split: if_splits)
  with assms show ?thesis
    by (auto simp: cat_dim1_def cat2_def split: if_splits)
qed

lemma generate_step_Inr:
  assumes step: "generate_step fwd draw seq_len st = Inr st'" and idx: "shape (gs_idx st) = [B, L]"
  shows "shape (gs_idx st') = [B, L + 1]"
    and "\<And>b t. t < L \<Longrightarrow> el (gs_idx st') [b, t] = el (gs_idx st) [b, t]"
    and "gs_calls st' = gs_calls st @ [\<lparr>shape = [B, L - slice_start (- seq_len) L],
               el = (\<lambda>ix. el (gs_idx st) (ix[1 := ix ! 1 + slice_start (- seq_len) L]))\<rparr>]"
proof -
  let ?c = "\<lparr>shape = [B, L - slice_start (- seq_len) L],
               el = (\<lambda>ix. el (gs_idx st) (ix[1 := ix ! 1 + slice_start (- seq_len) L]))\<rparr>"
  from step obtain lg g1 lst probs nxt g2 idx' where
    fw: "fwd ?c (gs_rng st) = Inr (lg, g1)" and "select_last_dim1 lg = Inr lst"
    and sm: "F_softmax (fin_tensor lst) = Inr probs"
    and mn: "torch_multinomial draw g1 probs = Inr (nxt, g2)"
    and cat: "cat_dim1 (gs_idx st) nxt = Inr idx'"
    and st': "st' = \<lparr>gs_idx = idx', gs_rng = g2, gs_calls = gs_calls st @ [?c]\<rparr>"
    by (auto simp: generate_step_def slice_from_dim1_rank2 [OF idx] and_then_eq_Inr split: prod.splits)
  obtain B' where nxt: "shape nxt = [B', 1]" using torch_multinomial_Inr [OF mn] by blast
  from cat_dim1_Inr [OF cat idx] nxt
  have c: "shape idx' = [B, L + 1]" "\<forall>i t. t < L \<longrightarrow> el idx' [i, t] = el (gs_idx st) [i, t]"
    by auto
  show "shape (gs_idx st') = [B, L + 1]" using c(1) st' by simp
  show "el (gs_idx st') [b, t] = el (gs_idx st) [b, t]" if "t < L" for b t
    using c(2) st' that by simp
  show "gs_calls st' = gs_calls st @ [?c]" using st' by simp
qed

lemma is_windowI:
  assumes "shape c = [B, min L w]"
    and "\<And>b t. b < B \<Longrightarrow> t < min L w \<Longrightarrow> el c [b, t] = el idx [b, L - min L w + t]"
  shows "is_window idx B L w c"
proof -
  have "el c ix = el idx [hd ix, L - min L w + hd (tl ix)]" if "ix \<in> set (indices [B, min L w])" for ix
  proof -
    from that have "ix \<in> {ix. list_all2 (<) ix [B, min L w]}" by (simp only: set_indices)
    then obtain b t where "ix = [b, t]" "b < B" "t < min L w"
      by (auto simp: list_all2_Cons2)
    then show ?thesis using assms(2) by simp
  qed
  then show ?thesis using assms(1) by (simp add: is_window_def list_all_iff)
qed

lemma is_windowD:
  assumes "is_window idx B L w c"
  shows "shape c = [B, min L w]"
    and "\<And>b t. b < B \<Longrightarrow> t < min L w \<Longrightarrow> el c [b, t] = el idx [b, L - min L w + t]"
proof -
  show "shape c = [B, min L w]" using assms by (simp add: is_window_def)
  show "el c [b, t] = el idx [b, L - min L w + t]" if "b < B" "t < min L w" for b t
  proof -
    have "[b, t] \<in> {ix. list_all2 (<) ix [B, min L w]}" using that by simp
    then have "[b, t] \<in> set (indices [B, min L w])" by (simp only: set_indices)
    then show ?thesis using assms by (auto simp: is_window_def list_all_iff)
  qed
qed

lemma generate_loop_Inr:
  assumes "generate_loop fwd draw seq_len n st = Inr st'" and "shape (gs_idx st) = [B, L]"
  shows "shape (gs_idx st') = [B, L + n]
    \<and> (\<forall>b t. t < L \<longrightarrow> el (gs_idx st') [b, t] = el (gs_idx st) [b, t])
    \<and> length (gs_calls st') = length (gs_calls st) + n
    \<and> take (length (gs_calls st)) (gs_calls st') = gs_calls st
    \<and> (0 < seq_len \<longrightarrow> (\<forall>i < n. is_window (gs_idx st') B (L + i) (nat seq_len)
                                  (gs_calls st' ! (length (gs_calls st) + i))))"
  using assms
proof (induction n arbitrary: st L)
  case 0
  then show ?case by simp
next
  case (Suc n)
  from Suc.prems(1) obtain st1 where step: "generate_step fwd draw seq_len st = Inr st1"
    and rest: "generate_loop fwd draw seq_len n st1 = Inr st'"
    by (auto simp: and_then_eq_Inr)
  let ?c = "\<lparr>shape = [B, L - slice_start (- seq_len) L],
               el = (\<lambda>ix. el (gs_idx st) (ix[1 := ix ! 1 + slice_start (- seq_len) L]))\<rparr>"
  note s1 = generate_step_Inr [OF step Suc.prems(2)]
  have sh1: "shape (gs_idx st1) = [B, Suc L]" using s1(1) by simp
  note ih = Suc.IH [OF rest sh1]
  have a: "shape (gs_idx st') = [B, L + Suc n]" using ih by simp
  have b: "el (gs_idx st') [b, t] = el (gs_idx st) [b, t]" if "t < L" for b t
    using ih s1(2) that by simp
  have c: "length (gs_calls st') = length (gs_calls st) + Suc n" using ih s1(3) by simp
  have tk: "take (Suc (length (gs_calls st))) (gs_calls st') = gs_calls st @ [?c]"
    using ih s1(3) by simp
  have d: "take (length (gs_calls st)) (gs_calls st') = gs_calls st"
  proof -
    have "take (length (gs_calls st)) (take (Suc (length (gs_calls st))) (gs_calls st')) = gs_calls st"
      by (simp only: tk) simp
    then show ?thesis by simp
  qed
  have e: "is_window (gs_idx st') B (L + i) (nat seq_len) (gs_calls st' ! (length (gs_calls st) + i))"
    if pos: "0 < seq_len" and i: "i < Suc n" for i
  proof (cases i)
    case 0
    have "gs_calls st' ! length (gs_calls st) = take (Suc (length (gs_calls st))) (gs_calls st') ! length (gs_calls st)"
      by simp
    also have "\<dots> = ?c" by (simp only: tk) simp
    finally have call: "gs_calls st' ! length (gs_calls st) = ?c" .
    have st: "slice_start (- seq_len) L = L - min L (nat seq_len)"
      using pos by (auto simp: slice_start_def)
    have "is_window (gs_idx st') B L (nat seq_len) ?c"
    proof (rule is_windowI)
      show "shape ?c = [B, min L (nat seq_len)]" using st by auto
      show "el ?c [b, t] = el (gs_idx st') [b, L - min L (nat seq_len) + t]"
        if "b < B" "t < min L (nat seq_len)" for b t
      proof -
        have "L - min L (nat seq_len) + t < L" using that by auto
        then have "el (gs_idx st') [b, L - min L (nat seq_len) + t] = el (gs_idx st) [b, L - min L (nat seq_len) + t]"
          by (rule b)
        then show ?thesis by (simp add: st add.commute)
      qed
    qed
    then show ?thesis using 0 call by simp
  next
    case (Suc j)
    then have "j < n" using i by simp
    then have "is_window (gs_idx st') B (Suc L + j) (nat seq_len) (gs_calls st' ! (length (gs_calls st1) + j))"
      using ih pos by blast
    then show ?thesis using Suc s1(3) by simp
  qed
  show ?case using a b c d e by blast
qed

lemma tokens_in_rank2:
  assumes "shape c = [B, T]"
  shows "tokens_in V c \<longleftrightarrow> (\<forall>b t. b < B \<and> t < T \<longrightarrow> 0 \<le> el c [b, t] \<and> el c [b, t] < int V)"
proof -
  have "set (indices [B, T]) = {ix. list_all2 (<) ix [B, T]}" by (simp only: set_indices)
  also have "\<dots> = {[b, t] | b t. b < B \<and> t < T}"
    by (auto simp: list_all2_Cons2)
  finally have s: "set (indices (shape c)) = {[b, t] | b t. b < B \<and> t < T}" using assms by simp
  show ?thesis unfolding tokens_in_def list_all_iff s by auto
qed

lemma row_of_fin: "row_of (fin_tensor x) pre = map (\<lambda>k. Fin (el x (pre @ [k]))) [0..<last (shape x)]"
  by (simp add: row_of_def fin_tensor_def)

lemma fin_vals_map_Fin: "fin_vals (map (\<lambda>k. Fin (f k)) ks) = map f ks"
  by (induction ks) simp_all

lemma sum_list_pos_real:
  fixes r :: "real list"
  assumes "r \<noteq> []" "\<And>v. v \<in> set r \<Longrightarrow> 0 < v"
  shows "0 < sum_list r"
  using assms by (induction r) (auto intro: add_pos_nonneg sum_list_nonneg less_imp_le)

lemma softmax_fin:
  assumes x: "shape x = [B, V]" and V: "0 < V"
  shows "\<exists>p. F_softmax (fin_tensor x) = Inr p \<and> shape p = [B, V]
           \<and> (\<forall>b. valid_probs (row_of p [b]) \<and> length (row_of p [b]) = V)"
proof -
  let ?X = "fin_tensor x"
  have sh: "shape ?X = [B, V]" using x by (simp add: fin_tensor_def)
  have rd: "row_defined (row_of ?X pre)" for pre
    using V by (simp add: row_defined_def row_of_fin x fin_vals_map_Fin)
  have ok: "list_all (\<lambda>pre. row_defined (row_of ?X pre)) (indices (butlast (shape ?X)))"
    by (simp add: list_all_iff rd)
  define p where "p = \<lparr>shape = shape ?X,
                el = (\<lambda>ix. let r = row_of ?X (butlast ix); m = max_list (fin_vals r)
                           in exp_shift m (el ?X ix) / (\<Sum>e\<leftarrow>r. exp_shift m e))\<rparr>"
  have p: "F_softmax ?X = Inr p"
    using ok sh by (simp add: F_softmax_def p_def)
  have pos: "0 < el p [b, j]" for b j
  proof -
    define m where "m = max_list (fin_vals (row_of ?X [b]))"
    have "Fin (el x [b, 0]) \<in> set (row_of ?X [b])"
      using V by (auto simp: row_of_fin x intro!: image_eqI [where x = 0])
    then have Z: "0 < (\<Sum>e\<leftarrow>row_of ?X [b]. exp_shift m e)" by (rule exp_shift_sum_pos)
    have "el p [b, j] = exp_shift m (el ?X [b, j]) / (\<Sum>e\<leftarrow>row_of ?X [b]. exp_shift m e)"
      by (simp add: p_def Let_def m_def)
    moreover have "0 < exp_shift m (el ?X [b, j])" by (simp add: fin_tensor_def exp_shift_def)
    ultimately show ?thesis using Z by simp
  qed
  have row: "row_of p [b] = map (\<lambda>k. el p [b, k]) [0..<V]" for b
    by (simp add: row_of_def p_def sh)
  have "valid_probs (row_of p [b]) \<and> length (row_of p [b]) = V" for b
  proof -
    have ne: "row_of p [b] \<noteq> []" using V by (simp add: row)
    have all: "0 < v" if "v \<in> set (row_of p [b])" for v
      using that pos by (auto simp: row)
    have "0 < sum_list (row_of p [b])" by (rule sum_list_pos_real [OF ne all])
    then show ?thesis using ne all by (auto simp: valid_probs_def list_all_iff row intro: less_imp_le)
  qed
  then show ?thesis using p sh by (auto simp: p_def)
qed

lemma draw_rows_props:
  assumes "draw_rows draw g rows = (ks, g')"
    and "\<And>r. r \<in> set rows \<Longrightarrow> length r = V"
    and "\<And>g r. length r = V \<Longrightarrow> fst (draw g r) < V"
  shows "length ks = length rows \<and> (\<forall>k \<in> set ks. k < V)"
  using assms(1,2)
proof (induction rows arbitrary: g ks)
  case Nil
  then show ?case by simp
next
  case (Cons r rows)
  obtain k g1 where d: "draw g r = (k, g1)" by (cases "draw g r")
  obtain ks1 g2 where r: "draw_rows draw g1 rows = (ks1, g2)" by (cases "draw_rows draw g1 rows")
  have ks: "ks = k # ks1" and g2: "g2 = g'" using Cons.prems(1) d r by simp_all
  have "length r = V" using Cons.prems(2) by simp
  then have k: "k < V" using assms(3) [of r g] d by simp
  have "length ks1 = length rows \<and> (\<forall>k \<in> set ks1. k < V)"
    by (rule Cons.IH [OF r [unfolded g2]]) (use Cons.prems(2) in simp)
  then show ?case using ks k by simp
qed

lemma torch_multinomial_ok:
  assumes p: "shape p = [B, V]"
    and rows: "\<And>b. valid_probs (row_of p [b]) \<and> length (row_of p [b]) = V"
    and draw: "\<And>g r. length r = V \<Longrightarrow> fst (draw g r) < V"
  shows "\<exists>ks g'. torch_multinomial draw g p = Inr (\<lparr>shape = [B, 1], el = (\<lambda>ix. int (ks ! hd ix))\<rparr>, g')
           \<and> length ks = B \<and> (\<forall>k \<in> set ks. k < V)"
proof -
  let ?rows = "map (\<lambda>b. row_of p [b]) [0..<B]"
  obtain ks g' where d: "draw_rows draw g ?rows = (ks, g')" by (cases "draw_rows draw g ?rows")
  have "length ks = length ?rows \<and> (\<forall>k \<in> set ks. k < V)"
    by (rule draw_rows_props [OF d _ draw]) (use rows in auto)
  moreover have "list_all valid_probs ?rows" using rows by (simp add: list_all_iff)
  ultimately have "torch_multinomial draw g p = Inr (\<lparr>shape = [B, 1], el = (\<lambda>ix. int (ks ! hd ix))\<rparr>, g')
           \<and> length ks = B \<and> (\<forall>k \<in> set ks. k < V)"
    using d p by (simp add: torch_multinomial_def Let_def)
  then show ?thesis by blast
qed

lemma cat_dim1_rank2:
  assumes "shape a = [B, L]" "shape b = [B, w]"
  shows "\<exists>c. cat_dim1 a b = Inr c \<and> shape c = [B, L + w]
          \<and> (\<forall>i t. t < L \<longrightarrow> el c [i, t] = el a [i, t])
          \<and> (\<forall>i t. L \<le> t \<longrightarrow> el c [i, t] = el b [i, t - L])"
  using assms by (simp add: cat_dim1_def cat2_def)

lemma generate_step_ok:
  assumes fwd: "\<And>c g T. shape c = [B, T] \<Longrightarrow> 1 \<le> T \<Longrightarrow> T \<le> nat seq_len \<Longrightarrow> tokens_in V c
                 \<Longrightarrow> \<exists>lg g'. fwd c g = Inr (lg, g') \<and> shape lg = [B, T, V]"
    and draw: "\<And>g r. length r = V \<Longrightarrow> fst (draw g r) < V"
    and V: "0 < V" and sl: "0 < seq_len"
    and idx: "shape (gs_idx st) = [B, L]" and L: "1 \<le> L" and tok: "tokens_in V (gs_idx st)"
  shows "\<exists>st'. generate_step fwd draw seq_len st = Inr st' \<and> tokens_in V (gs_idx st')"
proof -
  let ?s = "slice_start (- seq_len) L"
  let ?c = "\<lparr>shape = [B, L - ?s], el = (\<lambda>ix. el (gs_idx st) (ix[1 := ix ! 1 + ?s]))\<rparr>"
  have s: "?s = L - min L (nat seq_len)" using sl by (auto simp: slice_start_def)
  have cs: "shape ?c = [B, min L (nat seq_len)]" using s by auto
  have T1: "1 \<le> min L (nat seq_len)" "min L (nat seq_len) \<le> nat seq_len" using L sl by auto
  have ctok: "tokens_in V ?c"
    unfolding tokens_in_rank2 [OF cs]
  proof (intro allI impI)
    fix b t assume bt: "b < B \<and> t < min L (nat seq_len)"
    then have "t + ?s < L" using s by auto
    then have "0 \<le> el (gs_idx st) [b, t + ?s] \<and> el (gs_idx st) [b, t + ?s] < int V"
      using tok bt unfolding tokens_in_rank2 [OF idx] by blast
    then show "0 \<le> el ?c [b, t] \<and> el ?c [b, t] < int V" by simp
  qed
  obtain lg g1 where fw: "fwd ?c (gs_rng st) = Inr (lg, g1)" and lg: "shape lg = [B, min L (nat seq_len), V]"
    using fwd [OF cs T1 ctok] by blast
  define lst where "lst = \<lparr>shape = [B, V], el = (\<lambda>ix. el lg (hd ix # (min L (nat seq_len) - 1) # tl ix))\<rparr>"
  have sel: "select_last_dim1 lg = Inr lst"
    using lg T1 sl by (simp add: select_last_dim1_def lst_def)
  have "shape lst = [B, V]" by (simp add: lst_def)
  from softmax_fin [OF this V] obtain p where p: "F_softmax (fin_tensor lst) = Inr p" "shape p = [B, V]"
    "\<And>b. valid_probs (row_of p [b]) \<and> length (row_of p [b]) = V"
    by blast
  have "\<exists>ks g2. torch_multinomial draw g1 p = Inr (\<lparr>shape = [B, 1], el = (\<lambda>ix. int (ks ! hd ix))\<rparr>, g2)
           \<and> length ks = B \<and> (\<forall>k \<in> set ks. k < V)"
  proof (rule torch_multinomial_ok)
    show "shape p = [B, V]" by fact
    show "valid_probs (row_of p [b]) \<and> length (row_of p [b]) = V" for b by (rule p(3))
    show "fst (draw g r) < V" if "length r = V" for g r using that by (rule draw)
  qed
  then obtain ks g2 where
    mn: "torch_multinomial draw g1 p = Inr (\<lparr>shape = [B, 1], el = (\<lambda>ix. int (ks ! hd ix))\<rparr>, g2)"
    and ks: "length ks = B" "\<forall>k \<in> set ks. k < V"
    by blast
  let ?nxt = "\<lparr>shape = [B, 1], el = (\<lambda>ix. int (ks ! hd ix))\<rparr>"
  have "shape ?nxt = [B, 1]" by simp
  from cat_dim1_rank2 [OF idx this] obtain idx' where cat: "cat_dim1 (gs_idx st) ?nxt = Inr idx'"
    and sh': "shape idx' = [B, L + 1]"
    and lo: "\<forall>i t. t < L \<longrightarrow> el idx' [i, t] = el (gs_idx st) [i, t]"
    and hi: "\<forall>i t. L \<le> t \<longrightarrow> el idx' [i, t] = el ?nxt [i, t - L]"
    by blast
  define st' where "st' = \<lparr>gs_idx = idx', gs_rng = g2, gs_calls = gs_calls st @ [?c]\<rparr>"
  have step: "generate_step fwd draw seq_len st = Inr st'"
    using fw sel p(1) mn cat
    by (simp add: generate_step_def slice_from_dim1_rank2 [OF idx] st'_def)
  have "tokens_in V idx'"
    unfolding tokens_in_rank2 [OF sh']
  proof (intro allI impI)
    fix b t assume bt: "b < B \<and> t < L + 1"
    show "0 \<le> el idx' [b, t] \<and> el idx' [b, t] < int V"
    proof (cases "t < L")
      case True
      then show ?thesis using tok bt lo unfolding tokens_in_rank2 [OF idx] by simp
    next
      case False
      have "ks ! b \<in> set ks" using bt ks(1) by simp
      then have "ks ! b < V" using ks(2) by blast
      then show ?thesis using False hi by simp
    qed
  qed
  then show ?thesis using step by (auto simp: st'_def)
qed

lemma generate_loop_ok:
  assumes fwd: "\<And>c g T. shape c = [B, T] \<Longrightarrow> 1 \<le> T \<Longrightarrow> T \<le> nat seq_len \<Longrightarrow> tokens_in V c
                 \<Longrightarrow> \<exists>lg g'. fwd c g = Inr (lg, g') \<and> shape lg = [B, T, V]"
    and draw: "\<And>g r. length r = V \<Longrightarrow> fst (draw g r) < V"
    and V: "0 < V" and sl: "0 < seq_len"
    and idx: "shape (gs_idx st) = [B, L]" and L: "1 \<le> L" and tok: "tokens_in V (gs_idx st)"
  shows "\<exists>st'. generate_loop fwd draw seq_len n st = Inr st' \<and> tokens_in V (gs_idx st')"
  using idx L tok
proof (induction n arbitrary: st L)
  case 0
  then show ?case by simp
next
  case (Suc n)
  have "\<exists>st1. generate_step fwd draw seq_len st = Inr st1 \<and> tokens_in V (gs_idx st1)"
  proof (rule generate_step_ok [where B = B and V = V and L = L])
    show "\<exists>lg g'. fwd c g = Inr (lg, g') \<and> shape lg = [B, T, V]"
      if "shape c = [B, T]" "1 \<le> T" "T \<le> nat seq_len" "tokens_in V c" for c g T
      using that by (rule fwd)
    show "fst (draw g r) < V" if "length r = V" for g r using that by (rule draw)
  qed (use V sl Suc.prems in auto)
  then obtain st1 where st1: "generate_step fwd draw seq_len st = Inr st1" "tokens_in V (gs_idx st1)"
    by blast
  have sh: "shape (gs_idx st1) = [B, L + 1]"
    by (rule generate_step_Inr(1) [OF st1(1) Suc.prems(1)])
  have "\<exists>st'. generate_loop fwd draw seq_len n st1 = Inr st' \<and> tokens_in V (gs_idx st')"
    by (rule Suc.IH [OF sh _ st1(2)]) simp
  then show ?case using st1(1) by simp
qed

lemma draw_rows_rel:
  assumes draw: "\<And>r g g'. R g g' \<Longrightarrow> fst (draw1 g r) = fst (draw2 g' r) \<and> R (snd (draw1 g r)) (snd (draw2 g' r))"
    and "R g g'"
  shows "fst (draw_rows draw1 g rows) = fst (draw_rows draw2 g' rows)
     \<and> R (snd (draw_rows draw1 g rows)) (snd (draw_rows draw2 g' rows))"
  using assms(2)
proof (induction rows arbitrary: g g')
  case Nil
  then show ?case by simp
next
  case (Cons r rows)
  have d: "fst (draw1 g r) = fst (draw2 g' r)" "R (snd (draw1 g r)) (snd (draw2 g' r))"
    using draw [OF Cons.prems] by simp_all
  from Cons.IH [OF d(2)] d(1) show ?case
    by (simp add: split_beta)
qed

lemma torch_multinomial_rel:
  assumes draw: "\<And>r g g'. R g g' \<Longrightarrow> fst (draw1 g r) = fst (draw2 g' r) \<and> R (snd (draw1 g r)) (snd (draw2 g' r))"
    and "R g g'"
  shows "(\<exists>e. torch_multinomial draw1 g p = Inl e \<and> torch_multinomial draw2 g' p = Inl e)
       \<or> (\<exists>nxt h h'. torch_multinomial draw1 g p = Inr (nxt, h) \<and> torch_multinomial draw2 g' p = Inr (nxt, h')
             \<and> R h h')"
proof -
  have rel: "fst (draw_rows draw1 g rows) = fst (draw_rows draw2 g' rows)
     \<and> R (snd (draw_rows draw1 g rows)) (snd (draw_rows draw2 g' rows))" for rows
    by (rule draw_rows_rel [where R = R]) (use assms in auto)
  show ?thesis
  proof (cases "\<exists>B V. shape p = [B, V] \<and> list_all valid_probs (map (\<lambda>b. row_of p [b]) [0..<B])")
    case True
    then obtain B V where p: "shape p = [B, V]" "list_all valid_probs (map (\<lambda>b. row_of p [b]) [0..<B])"
      by blast
    let ?rows = "map (\<lambda>b. row_of p [b]) [0..<B]"
    have "torch_multinomial draw1 g p
        = Inr (\<lparr>shape = [B, 1], el = (\<lambda>ix. int (fst (draw_rows draw1 g ?rows) ! hd ix))\<rparr>, snd (draw_rows draw1 g ?rows))"
      using p by (simp add: torch_multinomial_def Let_def split_beta)
    moreover have "torch_multinomial draw2 g' p
        = Inr (\<lparr>shape = [B, 1], el = (\<lambda>ix. int (fst (draw_rows draw2 g' ?rows) ! hd ix))\<rparr>, snd (draw_rows draw2 g' ?rows))"
      using p by (simp add: torch_multinomial_def Let_def split_beta)
    ultimately show ?thesis using rel [of ?rows] by simp
  next
    case False
    then have "torch_multinomial draw1 g p = Inl RuntimeError" "torch_multinomial draw2 g' p = Inl RuntimeError"
      by (auto simp: torch_multinomial_def Let_def split: list.splits)
    then show ?thesis by simp
  qed
qed

lemma generate_step_rel:
  assumes fwd: "\<And>c g g'. R g g' \<Longrightarrow>
        (\<exists>e. fwd1 c g = Inl e \<and> fwd2 c g' = Inl e)
      \<or> (\<exists>lg h h'. fwd1 c g = Inr (lg, h) \<and> fwd2 c g' = Inr (lg, h') \<and> R h h')"
    and draw: "\<And>r g g'. R g g' \<Longrightarrow> fst (draw1 g r) = fst (draw2 g' r) \<and> R (snd (draw1 g r)) (snd (draw2 g' r))"
    and st: "gs_idx s = gs_idx s'" "R (gs_rng s) (gs_rng s')" "gs_calls s = gs_calls s'"
  shows "same_outcome R (generate_step fwd1 draw1 seq_len s) (generate_step fwd2 draw2 seq_len s')"
proof (cases "slice_from_dim1 (gs_idx s) (- seq_len)")
  case (Inl e)
  then show ?thesis using st by (simp add: generate_step_def same_outcome_def)
next
  case (Inr c)
  from fwd [OF st(2), of c] show ?thesis
  proof (elim disjE exE conjE)
    fix e assume "fwd1 c (gs_rng s) = Inl e" "fwd2 c (gs_rng s') = Inl e"
    then show ?thesis using Inr st by (simp add: generate_step_def same_outcome_def)
  next
    fix lg h h' assume f: "fwd1 c (gs_rng s) = Inr (lg, h)" "fwd2 c (gs_rng s') = Inr (lg, h')" and R: "R h h'"
    show ?thesis
    proof (cases "and_then (select_last_dim1 lg) (\<lambda>l. F_softmax (fin_tensor l))")
      case (Inl e)
      then show ?thesis using Inr st f
        by (cases "select_last_dim1 lg") (simp_all add: generate_step_def same_outcome_def)
    next
      case pr: (Inr p)
      then obtain l where l: "select_last_dim1 lg = Inr l" "F_softmax (fin_tensor l) = Inr p"
        by (auto simp: and_then_eq_Inr)
      have "(\<exists>e. torch_multinomial draw1 h p = Inl e \<and> torch_multinomial draw2 h' p = Inl e)
       \<or> (\<exists>nxt k k'. torch_multinomial draw1 h p = Inr (nxt, k) \<and> torch_multinomial draw2 h' p = Inr (nxt, k')
             \<and> R k k')"
        by (rule torch_multinomial_rel [where R = R]) (use draw R in auto)
      then show ?thesis
      proof (elim disjE exE conjE)
        fix e assume "torch_multinomial draw1 h p = Inl e" "torch_multinomial draw2 h' p = Inl e"
        then show ?thesis using Inr st f l by (simp add: generate_step_def same_outcome_def)
      next
        fix nxt k k' assume m: "torch_multinomial draw1 h p = Inr (nxt, k)" "torch_multinomial draw2 h' p = Inr (nxt, k')"
          and "R k k'"
        then show ?thesis using Inr st f l
          by (cases "cat_dim1 (gs_idx s') nxt") (simp_all add: generate_step_def same_outcome_def)
      qed
    qed
  qed
qed

lemma generate_loop_rel:
  assumes fwd: "\<And>c g g'. R g g' \<Longrightarrow>
        (\<exists>e. fwd1 c g = Inl e \<and> fwd2 c g' = Inl e)
      \<or> (\<exists>lg h h'. fwd1 c g = Inr (lg, h) \<and> fwd2 c g' = Inr (lg, h') \<and> R h h')"
    and draw: "\<And>r g g'. R g g' \<Longrightarrow> fst (draw1 g r) = fst (draw2 g' r) \<and> R (snd (draw1 g r)) (snd (draw2 g' r))"
    and st: "gs_idx s = gs_idx s'" "R (gs_rng s) (gs_rng s')" "gs_calls s = gs_calls s'"
  shows "same_outcome R (generate_loop fwd1 draw1 seq_len n s) (generate_loop fwd2 draw2 seq_len n s')"
  using st
proof (induction n arbitrary: s s')
  case 0
  then show ?case by (simp add: same_outcome_def)
next
  case (Suc n)
  have step: "same_outcome R (generate_step fwd1 draw1 seq_len s) (generate_step fwd2 draw2 seq_len s')"
    by (rule generate_step_rel [where R = R]) (use fwd draw Suc.prems in auto)
  show ?case
  proof (cases "generate_step fwd1 draw1 seq_len s")
    case (Inl e)
    then show ?thesis using step
      by (cases "generate_step fwd2 draw2 seq_len s'") (simp_all add: same_outcome_def)
  next
    case (Inr t)
    then obtain t' where t': "generate_step fwd2 draw2 seq_len s' = Inr t'"
      and rel: "gs_idx t = gs_idx t'" "R (gs_rng t) (gs_rng t')" "gs_calls t = gs_calls t'"
      using step by (cases "generate_step fwd2 draw2 seq_len s'") (simp_all add: same_outcome_def)
    show ?thesis using Suc.IH [OF rel] Inr t' by simp
  qed
qed

subsection \<open>Shapes through the whole model\<close>

lemma bshape_same: "bshape xs xs = Some xs"
  by (induction xs) simp_all

lemma tensor_add_same_shape:
  assumes "shape y = shape x"
  shows "\<exists>z. tensor_add x y = Inr z \<and> shape z = shape x"
  using assms by (simp add: tensor_add_def broadcast_shapes_def bshape_same)

lemma LayerNorm_forward_shape:
  assumes "shape x = [B, T, C]" "LN_dim l = C"
  shows "\<exists>y. LayerNorm_forward l x = Inr y \<and> shape y = [B, T, C]"
  using assms by (simp add: LayerNorm_forward_def)

lemma FeedFoward_forward_shape:
  assumes "shape x = [B, T, C]" "in_features (FF_fc1 f) = C"
    "in_features (FF_fc2 f) = out_features (FF_fc1 f)"
  shows "\<exists>y. FeedFoward_forward noise f x = Inr y \<and> shape y = [B, T, out_features (FF_fc2 f)]"
  using assms
  by (simp add: FeedFoward_forward_def Linear_forward_def nn_ReLU_def nn_Dropout_def)

lemma Block_forward_shape:
  assumes x: "shape x = [B, T, C]" and C: "0 < C" and T: "T \<le> n" and b: "block_fits C n b"
  shows "\<exists>y. Block_forward noise b x = Inr y \<and> shape y = [B, T, C]"
proof -
  have ln: "LN_dim (Block_ln1 b) = C" "LN_dim (Block_ln2 b) = C" using b by (simp_all add: block_fits_def)
  obtain n1 where n1: "LayerNorm_forward (Block_ln1 b) x = Inr n1" "shape n1 = [B, T, C]"
    using LayerNorm_forward_shape [OF x ln(1)] by blast
  have "\<exists>a. MultiHeadAttention_forward noise (Block_sa b) n1 = Inr a
          \<and> shape a = [B, T, out_features (MHA_proj (Block_sa b))]"
    by (rule MultiHeadAttention_forward_shape(2) [OF n1(2) C T]) (use b in \<open>auto simp: block_fits_def\<close>)
  then obtain a where a: "MultiHeadAttention_forward noise (Block_sa b) n1 = Inr a" "shape a = [B, T, C]"
    using b by (auto simp: block_fits_def)
  obtain x1 where x1: "tensor_add x a = Inr x1" "shape x1 = [B, T, C]"
    using tensor_add_same_shape [of a x] a(2) x by auto
  obtain n2 where n2: "LayerNorm_forward (Block_ln2 b) x1 = Inr n2" "shape n2 = [B, T, C]"
    using LayerNorm_forward_shape [OF x1(2) ln(2)] by blast
  have "\<exists>f. FeedFoward_forward noise (Block_ffwd b) n2 = Inr f
         \<and> shape f = [B, T, out_features (FF_fc2 (Block_ffwd b))]"
    by (rule FeedFoward_forward_shape [OF n2(2)]) (use b in \<open>auto simp: block_fits_def\<close>)
  then obtain f where f: "FeedFoward_forward noise (Block_ffwd b) n2 = Inr f" "shape f = [B, T, C]"
    using b by (auto simp: block_fits_def)
  obtain y where y: "tensor_add x1 f = Inr y" "shape y = [B, T, C]"
    using tensor_add_same_shape [of f x1] f(2) x1(2) by auto
  show ?thesis using n1 a x1 n2 f y by (simp add: Block_forward_def)
qed

lemma Sequential_forward_shape:
  assumes "shape x = [B, T, C]" and C: "0 < C" and T: "T \<le> n" and "list_all (block_fits C n) bs"
  shows "\<exists>y. Sequential_forward noise bs x = Inr y \<and> shape y = [B, T, C]"
  using assms(1,4)
proof (induction bs arbitrary: x)
  case Nil
  then show ?case by simp
next
  case (Cons b bs)
  have "block_fits C n b" using Cons.prems(2) by simp
  from Block_forward_shape [OF Cons.prems(1) C T this, of noise]
  obtain y where y: "Block_forward noise b x = Inr y" "shape y = [B, T, C]" by blast
  have "\<exists>z. Sequential_forward noise bs y = Inr z \<and> shape z = [B, T, C]"
    by (rule Cons.IH [OF y(2)]) (use Cons.prems(2) in simp)
  then show ?case using y(1) by simp
qed

lemma Embedding_forward_ok:
  assumes "tokens_in (num_embeddings e) idx"
  shows "\<exists>y. Embedding_forward e idx = Inr y \<and> shape y = shape idx @ [embedding_dim e]"
  using assms by (simp add: Embedding_forward_def tokens_in_def)

lemma tokens_in_arange: "T \<le> n \<Longrightarrow> tokens_in n (torch_arange T)"
proof -
  assume T: "T \<le> n"
  have "set (indices [T]) = {ix. list_all2 (<) ix [T]}" by (simp only: set_indices)
  then have "ix \<in> set (indices [T]) \<Longrightarrow> last ix < T" for ix
    by (auto simp: list_all2_Cons2)
  then show ?thesis using T by (fastforce simp: tokens_in_def torch_arange_def list_all_iff)
qed

lemma TextGenerationModel_forward_ok:
  assumes m: "model_fits V n C m" and idx: "shape idx = [B, T]" and T: "T \<le> n"
    and tok: "tokens_in V idx"
  shows "\<exists>lg. TextGenerationModel_forward ce noise m idx None = Inr (lg, None) \<and> shape lg = [B, T, V]"
proof -
  have C: "0 < C" using m by (simp add: model_fits_def)
  obtain te where te: "Embedding_forward (token_embedding_table m) idx = Inr te" "shape te = [B, T, C]"
    using Embedding_forward_ok [of "token_embedding_table m" idx] tok m idx
    by (auto simp: model_fits_def)
  obtain pe where pe: "Embedding_forward (position_embedding_table m) (torch_arange T) = Inr pe"
    "shape pe = [T, C]"
    using Embedding_forward_ok [of "position_embedding_table m" "torch_arange T"] tokens_in_arange [OF T] m
    by (auto simp: model_fits_def torch_arange_def)
  obtain x where x: "tensor_add te pe = Inr x" "shape x = [B, T, C]"
    using te(2) pe(2) by (simp add: tensor_add_def broadcast_shapes_def)
  have "\<exists>y. Sequential_forward noise (blocks m) x = Inr y \<and> shape y = [B, T, C]"
    by (rule Sequential_forward_shape [OF x(2) C T]) (use m in \<open>simp add: model_fits_def\<close>)
  then obtain y where y: "Sequential_forward noise (blocks m) x = Inr y" "shape y = [B, T, C]"
    by blast
  have lnf: "LN_dim (ln_f m) = C" using m by (simp add: model_fits_def)
  obtain z where z: "LayerNorm_forward (ln_f m) y = Inr z" "shape z = [B, T, C]"
    using LayerNorm_forward_shape [OF y(2) lnf] by blast
  have "\<exists>lg. Linear_forward (lm_head m) z = Inr lg \<and> shape lg = [B, T, V]"
    using z(2) m by (simp add: Linear_forward_def model_fits_def)
  then obtain lg where lg: "Linear_forward (lm_head m) z = Inr lg" "shape lg = [B, T, V]"
    by blast
  show ?thesis using idx te pe x y z lg by (simp add: TextGenerationModel_forward_def)
qed

lemma Block_init_fits:
  assumes G: "G_d_model G = d_model" "0 \<le> G_seq_len G" and d: "0 < d_model" and n: "0 < n_head"
    and dv: "n_head * (d_model div n_head) = d_model"
  shows "\<exists>b. Block_init G init p d_model n_head = Inr b
           \<and> block_fits (nat d_model) (nat (G_seq_len G)) b"
proof -
  have hs: "0 \<le> d_model div n_head" using d n by (simp add: pos_imp_zdiv_nonneg_iff)
  have Gd: "0 \<le> G_d_model G" using G(1) d by simp
  obtain m where m: "MultiHeadAttention_init G init (p @ [0]) n_head (d_model div n_head) = Inr m"
     "length (MHA_heads m) = nat n_head"
     "list_all (\<lambda>h. in_features (Head_key h) = nat (G_d_model G)
                   \<and> in_features (Head_query h) = nat (G_d_model G)
                   \<and> in_features (Head_value h) = nat (G_d_model G)
                   \<and> out_features (Head_key h) = nat (d_model div n_head)
                   \<and> out_features (Head_query h) = nat (d_model div n_head)
                   \<and> out_features (Head_value h) = nat (d_model div n_head)
                   \<and> Head_tril h = tril_ones (nat (G_seq_len G))) (MHA_heads m)"
     "in_features (MHA_proj m) = nat (G_d_model G)" "out_features (MHA_proj m) = nat (G_d_model G)"
    using MultiHeadAttention_init_ok [OF Gd hs G(2), of init "p @ [0]" n_head] by blast
  define b where "b = \<lparr>Block_sa = m,
     Block_ffwd = \<lparr>FF_fc1 = \<lparr>in_features = nat d_model, out_features = nat (4 * d_model),
                      weight = init (((p @ [1]) @ [0]) @ [0]),
                      bias = Some (\<lambda>j. init (((p @ [1]) @ [0]) @ [1]) j 0)\<rparr>,
                   FF_fc2 = \<lparr>in_features = nat (4 * d_model), out_features = nat d_model,
                      weight = init (((p @ [1]) @ [2]) @ [0]),
                      bias = Some (\<lambda>j. init (((p @ [1]) @ [2]) @ [1]) j 0)\<rparr>,
                   FF_training = True\<rparr>,
     Block_ln1 = \<lparr>LN_dim = nat d_model, LN_weight = (\<lambda>j. 1), LN_bias = (\<lambda>j. 0), LN_eps = 1 / 100000\<rparr>,
     Block_ln2 = \<lparr>LN_dim = nat d_model, LN_weight = (\<lambda>j. 1), LN_bias = (\<lambda>j. 0), LN_eps = 1 / 100000\<rparr>\<rparr>"
  have b: "Block_init G init p d_model n_head = Inr b"
    using m(1) d n by (simp add: Block_init_def FeedFoward_init_def nn_Linear_def nn_LayerNorm_def b_def)
  have ne: "MHA_heads m \<noteq> []" using m(2) n by auto
  then have "hd (MHA_heads m) \<in> set (MHA_heads m)" by simp
  then have hd: "out_features (Head_value (hd (MHA_heads m))) = nat (d_model div n_head)"
    using m(3) by (auto simp: list_all_iff)
  have fits: "list_all (head_fits (nat d_model) (nat (d_model div n_head)) (nat (G_seq_len G))) (MHA_heads m)"
    using m(3) G(1) by (auto simp: list_all_iff head_fits_def)
  have "nat n_head * nat (d_model div n_head) = nat (n_head * (d_model div n_head))"
    using n hs by (simp add: nat_mult_distrib)
  then have len: "length (MHA_heads m) * nat (d_model div n_head) = nat d_model"
    using m(2) dv by simp
  have "block_fits (nat d_model) (nat (G_seq_len G)) b"
    using ne fits len m(4,5) G(1) by (simp add: block_fits_def b_def hd)
  then show ?thesis using b by blast
qed

lemma TextGenerationModel_init_fits:
  assumes v: "0 \<le> G_vocab_size G" and sl: "0 \<le> G_seq_len G" and d: "0 < G_d_model G"
    and n: "0 < G_n_head G" and dv: "G_n_head G * (G_d_model G div G_n_head G) = G_d_model G"
  shows "\<exists>m. TextGenerationModel_init G init = Inr m
           \<and> model_fits (nat (G_vocab_size G)) (nat (G_seq_len G)) (nat (G_d_model G)) m"
proof -
  define f where "f = (\<lambda>i. Block_init G init [2, i] (G_d_model G) (G_n_head G))"
  define g where "g = (\<lambda>i. projr (f i))"
  have fg: "f i = Inr (g i) \<and> block_fits (nat (G_d_model G)) (nat (G_seq_len G)) (g i)" for i
    using Block_init_fits [OF refl sl d n dv, of init "[2, i]"] by (auto simp: f_def g_def)
  have seq: "sequence (map f [0..<nat (G_n_layer G)]) = Inr (map g [0..<nat (G_n_layer G)])"
    by (rule sequence_map_Inr) (simp add: fg)
  define m where "m = \<lparr>token_embedding_table =
        \<lparr>num_embeddings = nat (G_vocab_size G), embedding_dim = nat (G_d_model G), emb_weight = init ([0] @ [0])\<rparr>,
      position_embedding_table =
        \<lparr>num_embeddings = nat (G_seq_len G), embedding_dim = nat (G_d_model G), emb_weight = init ([1] @ [0])\<rparr>,
      blocks = map g [0..<nat (G_n_layer G)],
      ln_f = \<lparr>LN_dim = nat (G_d_model G), LN_weight = (\<lambda>j. 1), LN_bias = (\<lambda>j. 0), LN_eps = 1 / 100000\<rparr>,
      lm_head = \<lparr>in_features = nat (G_d_model G), out_features = nat (G_vocab_size G),
                 weight = init ([4] @ [0]), bias = Some (\<lambda>j. init ([4] @ [1]) j 0)\<rparr>\<rparr>"
  have m: "TextGenerationModel_init G init = Inr m"
    using seq v sl d
    by (simp add: TextGenerationModel_init_def f_def [symmetric] nn_Embedding_def nn_LayerNorm_def
        nn_Linear_def m_def)
  have "model_fits (nat (G_vocab_size G)) (nat (G_seq_len G)) (nat (G_d_model G)) m"
    using d fg by (simp add: model_fits_def m_def list_all_iff)
  then show ?thesis using m by blast
qed

lemma head_fits_eval: "head_fits C hs n (Head_eval h) = head_fits C hs n h"
  by (simp add: head_fits_def Head_eval_def)

lemma Head_value_eval: "Head_value (Head_eval h) = Head_value h"
  by (simp add: Head_eval_def)

lemma block_fits_eval: "block_fits C n b \<Longrightarrow> block_fits C n (Block_eval b)"
  by (simp add: block_fits_def Block_eval_def MultiHeadAttention_eval_def FeedFoward_eval_def
      hd_map list_all_iff head_fits_eval Head_value_eval)

lemma model_fits_eval: "model_fits V n C m \<Longrightarrow> model_fits V n C (TextGenerationModel_eval m)"
  by (simp add: model_fits_def TextGenerationModel_eval_def list_all_iff block_fits_eval)

lemma LayerNorm_forward_Inr: "LayerNorm_forward l x = Inr y \<Longrightarrow> shape y = shape x"
  by (auto simp: LayerNorm_forward_def split: if_splits)

lemma cat2_Inr:
  "cat2 a b = Inr c \<Longrightarrow> shape a \<noteq> [] \<and> shape c \<noteq> [] \<and> butlast (shape c) = butlast (shape a)"
  by (auto simp: cat2_def split: if_splits)

lemma torch_cat_Inr:
  "torch_cat ts = Inr c \<Longrightarrow> ts \<noteq> [] \<and> shape c \<noteq> [] \<and> butlast (shape c) = butlast (shape (hd ts))"
proof (induction ts arbitrary: c rule: torch_cat.induct)
  case 1
  then show ?case by simp
next
  case (2 t)
  then show ?case by (auto split: if_splits)
next
  case (3 t u ts)
  from "3.prems" obtain r where "torch_cat (u # ts) = Inr r" "cat2 t r = Inr c"
    by (auto simp: and_then_eq_Inr)
  then show ?case using cat2_Inr by fastforce
qed

lemma MultiHeadAttention_forward_Inr:
  assumes "MultiHeadAttention_forward noise m x = Inr a" "shape x = [B, T, C]"
  shows "shape a = [B, T, out_features (MHA_proj m)]"
proof -
  from assms(1) obtain outs c z where seq: "sequence (map (\<lambda>h. Head_forward noise h x) (MHA_heads m)) = Inr outs"
    and cat: "torch_cat outs = Inr c" and lin: "Linear_forward (MHA_proj m) c = Inr z"
    and a: "a = nn_Dropout (MHA_training m) noise z"
    by (auto simp: MultiHeadAttention_forward_def and_then_eq_Inr)
  have l2: "list_all2 (\<lambda>r v. r = Inr v) (map (\<lambda>h. Head_forward noise h x) (MHA_heads m)) outs"
    by (rule sequence_eq_Inr [OF seq])
  have ne: "outs \<noteq> []" and bl: "butlast (shape c) = butlast (shape (hd outs))" and cne: "shape c \<noteq> []"
    using torch_cat_Inr [OF cat] by simp_all
  then have "0 < length (MHA_heads m)" using l2 by (auto dest: list_all2_lengthD)
  then have "Head_forward noise (MHA_heads m ! 0) x = Inr (outs ! 0)"
    using list_all2_nthD [OF l2, of 0] by simp
  from Head_forward_Inr [OF this] assms(2) have "butlast (shape (outs ! 0)) = [B, T]" by auto
  then have "butlast (shape c) = [B, T]" using bl ne by (simp add: hd_conv_nth)
  then have "shape z = [B, T, out_features (MHA_proj m)]"
    using Linear_forward_Inr [OF lin] by simp
  then show ?thesis using a by (simp add: nn_Dropout_def)
qed

lemma FeedFoward_forward_Inr:
  assumes "FeedFoward_forward noise f x = Inr y" "shape x = [B, T, C]"
  shows "shape y = [B, T, out_features (FF_fc2 f)]"
proof -
  from assms(1) obtain a b where a: "Linear_forward (FF_fc1 f) x = Inr a"
    and b: "Linear_forward (FF_fc2 f) (nn_ReLU a) = Inr b"
    and y: "y = nn_Dropout (FF_training f) noise b"
    by (auto simp: FeedFoward_forward_def and_then_eq_Inr)
  have "shape a = [B, T, out_features (FF_fc1 f)]" using Linear_forward_Inr [OF a] assms(2) by simp
  then have "shape b = [B, T, out_features (FF_fc2 f)]"
    using Linear_forward_Inr [OF b] by (simp add: nn_ReLU_def)
  then show ?thesis using y by (simp add: nn_Dropout_def)
qed

lemma tensor_add_Inr_rank3:
  assumes "tensor_add x y = Inr z" "shape x = [B, T, C]" "shape y = [B, T, D]"
  shows "\<exists>E. shape z = [B, T, E]"
  using assms by (auto simp: tensor_add_def broadcast_shapes_def split: option.splits if_splits)

lemma Block_forward_Inr:
  assumes "Block_forward noise b x = Inr y" "shape x = [B, T, C]"
  shows "\<exists>E. shape y = [B, T, E]"
proof -
  from assms(1) obtain n1 a x1 n2 f where n1: "LayerNorm_forward (Block_ln1 b) x = Inr n1"
    and a: "MultiHeadAttention_forward noise (Block_sa b) n1 = Inr a"
    and x1: "tensor_add x a = Inr x1"
    and n2: "LayerNorm_forward (Block_ln2 b) x1 = Inr n2"
    and f: "FeedFoward_forward noise (Block_ffwd b) n2 = Inr f"
    and y: "tensor_add x1 f = Inr y"
    by (auto simp: Block_forward_def and_then_eq_Inr)
  have "shape n1 = [B, T, C]" using LayerNorm_forward_Inr [OF n1] assms(2) by simp
  from MultiHeadAttention_forward_Inr [OF a this]
  obtain E1 where "shape x1 = [B, T, E1]" using tensor_add_Inr_rank3 [OF x1 assms(2)] by blast
  then have sx1: "shape x1 = [B, T, E1]" and "shape n2 = [B, T, E1]"
    using LayerNorm_forward_Inr [OF n2] by simp_all
  from FeedFoward_forward_Inr [OF f this(2)] show ?thesis
    using tensor_add_Inr_rank3 [OF y sx1] by blast
qed

lemma Sequential_forward_Inr:
  assumes "Sequential_forward noise bs x = Inr y" "shape x = [B, T, C]"
  shows "\<exists>E. shape y = [B, T, E]"
  using assms
proof (induction bs arbitrary: x C)
  case Nil
  then show ?case by simp
next
  case (Cons b bs)
  from Cons.prems(1) obtain x1 where x1: "Block_forward noise b x = Inr x1"
    and r: "Sequential_forward noise bs x1 = Inr y"
    by (auto simp: and_then_eq_Inr)
  from Block_forward_Inr [OF x1 Cons.prems(2)] obtain E where "shape x1 = [B, T, E]" by blast
  from Cons.IH [OF r this] show ?case .
qed

lemma forward_logits_Inr:
  assumes idx: "shape idx = [B, T]"
    and te: "Embedding_forward tok idx = Inr te"
    and pe: "Embedding_forward pos (torch_arange T) = Inr pe"
    and x: "tensor_add te pe = Inr x"
    and y: "Sequential_forward noise bs x = Inr y"
    and z: "LayerNorm_forward lnf y = Inr z"
    and lg: "Linear_forward head z = Inr lg"
  shows "shape lg = [B, T, out_features head]"
proof -
  have "shape te = [B, T, embedding_dim tok]"
    using te idx by (auto simp: Embedding_forward_def split: if_splits)
  moreover have "shape pe = [T, embedding_dim pos]"
    using pe by (auto simp: Embedding_forward_def torch_arange_def split: if_splits)
  ultimately obtain E where "shape x = [B, T, E]"
    using x by (auto simp: tensor_add_def broadcast_shapes_def split: option.splits if_splits)
  from Sequential_forward_Inr [OF y this] obtain E' where "shape y = [B, T, E']" by blast
  then have "shape z = [B, T, E']" using LayerNorm_forward_Inr [OF z] by simp
  then show ?thesis using Linear_forward_Inr [OF lg] by simp
qed

lemma TextGenerationModel_forward_Inr:
  assumes idx: "shape idx = [B, T]"
    and fw: "TextGenerationModel_forward ce noise m idx targets = Inr (lg, loss)"
  shows "(case targets of
            None \<Rightarrow> loss = None \<and> shape lg = [B, T, out_features (lm_head m)]
          | Some tg \<Rightarrow> shape lg = [B * T, out_features (lm_head m)]
               \<and> (\<exists>tg' l. view tg [B * T] = Inr tg' \<and> ce lg tg' = Inr l \<and> loss = Some l))"
proof -
  from fw idx obtain te pe x y z lg0 where te: "Embedding_forward (token_embedding_table m) idx = Inr te"
    and pe: "Embedding_forward (position_embedding_table m) (torch_arange T) = Inr pe"
    and x: "tensor_add te pe = Inr x"
    and y: "Sequential_forward noise (blocks m) x = Inr y"
    and z: "LayerNorm_forward (ln_f m) y = Inr z"
    and lg0: "Linear_forward (lm_head m) z = Inr lg0"
    and rest: "(case targets of
             None \<Rightarrow> Inr (lg0, None)
           | Some targets \<Rightarrow>
               (case shape lg0 of
                  [batch_size, seq_len, d_model] \<Rightarrow>
                    and_then (view lg0 [batch_size * seq_len, d_model]) (\<lambda>logits.
                    and_then (view targets [batch_size * seq_len]) (\<lambda>targets.
                    and_then (ce logits targets) (\<lambda>loss.
                    Inr (logits, Some loss))))
                | _ \<Rightarrow> Inl ValueError)) = Inr (lg, loss)"
    by (auto simp: TextGenerationModel_forward_def and_then_eq_Inr)
  have s0: "shape lg0 = [B, T, out_features (lm_head m)]"
    by (rule forward_logits_Inr [OF idx te pe x y z lg0])
  show ?thesis
  proof (cases targets)
    case None
    then show ?thesis using rest s0 by simp
  next
    case (Some tg)
    then show ?thesis using rest s0
      by (auto simp: and_then_eq_Inr view_def split: if_splits)
  qed
qed

lemma Block_forward_spec: "Block_forward noise b x = spec_block noise b x"
  by (simp add: Block_forward_def spec_block_def residual_def and_then_def split: sum.splits)

subsection \<open>Generation\<close>

lemma spec_model_fits: "model_fits 5 3 4 spec_model"
proof -
  have "\<exists>m. TextGenerationModel_init spec_globals unit_init = Inr m
           \<and> model_fits (nat (G_vocab_size spec_globals)) (nat (G_seq_len spec_globals))
               (nat (G_d_model spec_globals)) m"
    by (rule TextGenerationModel_init_fits) (simp_all add: spec_globals_def)
  then obtain m where "TextGenerationModel_init spec_globals unit_init = Inr m" "model_fits 5 3 4 m"
    by (auto simp: spec_globals_def)
  then show ?thesis by (simp add: spec_model_def model_fits_eval)
qed

lemma model_call_returns:
  assumes "model_fits V n C m"
  shows "forward_returns (model_call ce noise m) B n V"
  unfolding forward_returns_def
proof (intro allI impI)
  fix c :: "int tensor" and g :: 'a and T
  assume h: "shape c = [B, T] \<and> 1 \<le> T \<and> T \<le> n \<and> tokens_in V c"
  then obtain lg where "TextGenerationModel_forward ce noise m c None = Inr (lg, None)" "shape lg = [B, T, V]"
    using TextGenerationModel_forward_ok [OF assms, of c B T ce noise] by blast
  then show "\<exists>lg g'. model_call ce noise m c g = Inr (lg, g') \<and> shape lg = [B, T, V]"
    by (simp add: model_call_def)
qed

lemma forward_agrees_refl: "forward_agrees (=) fwd fwd"
  unfolding forward_agrees_def
proof (intro allI impI)
  fix c g g' assume "g = (g' :: 'a)"
  then show "(\<exists>e. fwd c g = Inl e \<and> fwd c g' = Inl e)
      \<or> (\<exists>lg h h'. fwd c g = Inr (lg, h) \<and> fwd c g' = Inr (lg, h') \<and> h = h')"
    by (cases "fwd c g") auto
qed

lemma sampler_agrees_refl: "sampler_agrees (=) draw draw"
  by (simp add: sampler_agrees_def)

lemma generate_run:
  assumes fwd: "forward_returns fwd B (nat seq_len) V" and draw: "sampler_in_range draw V"
    and V: "0 < V" and sl: "0 < seq_len" and idx: "shape idx = [B, L]" and L: "1 \<le> L"
    and tok: "tokens_in V idx"
  shows "\<exists>st. generate fwd draw seq_len idx k g = Inr st \<and> tokens_in V (gs_idx st)"
  unfolding generate_def
proof (rule generate_loop_ok [where B = B and V = V and L = L])
  show "\<exists>lg g'. fwd c g = Inr (lg, g') \<and> shape lg = [B, T, V]"
    if "shape c = [B, T]" "1 \<le> T" "T \<le> nat seq_len" "tokens_in V c" for c g T
    using fwd that unfolding forward_returns_def by blast
  show "fst (draw g r) < V" if "length r = V" for g r
    using draw that unfolding sampler_in_range_def by blast
qed (use V sl idx L tok in auto)

lemma generate_Inr:
  assumes "generate fwd draw seq_len idx k g = Inr st" and "shape idx = [B, L]"
  shows "shape (gs_idx st) = [B, L + nat k]"
    and "\<And>b t. t < L \<Longrightarrow> el (gs_idx st) [b, t] = el idx [b, t]"
    and "length (gs_calls st) = nat k"
    and "\<And>i. 0 < seq_len \<Longrightarrow> i < nat k \<Longrightarrow> is_window (gs_idx st) B (L + i) (nat seq_len) (gs_calls st ! i)"
proof -
  let ?s0 = "\<lparr>gs_idx = idx, gs_rng = g, gs_calls = []\<rparr>"
  have run: "generate_loop fwd draw seq_len (nat k) ?s0 = Inr st"
    using assms(1) by (simp add: generate_def)
  have sh: "shape (gs_idx ?s0) = [B, L]" using assms(2) by simp
  note r = generate_loop_Inr [OF run sh]
  show "shape (gs_idx st) = [B, L + nat k]" using r by simp
  show "el (gs_idx st) [b, t] = el idx [b, t]" if "t < L" for b t using r that by simp
  show "length (gs_calls st) = nat k" using r by simp
  show "is_window (gs_idx st) B (L + i) (nat seq_len) (gs_calls st ! i)"
    if "0 < seq_len" "i < nat k" for i
    using r that by simp
qed

text \<open>
  A model that returns and a sampler that stays inside the vocabulary: for a seed of \<open>B\<close>
  rows of length \<open>L \<ge> 1\<close>, \<open>generate\<close> returns a sequence of length \<open>L + max_new_tokens\<close> that
  starts with the seed and holds vocabulary ids only.
\<close>

lemma generate_length:
  assumes "forward_returns fwd B (nat seq_len) V" and "sampler_in_range draw V"
    and "0 < V" and "0 < seq_len" and "shape idx = [B, L]" and "1 \<le> L" and "tokens_in V idx"
  shows "\<exists>st. generate fwd draw seq_len idx k g = Inr st
           \<and> shape (gs_idx st) = [B, L + nat k]
           \<and> (\<forall>b t. t < L \<longrightarrow> el (gs_idx st) [b, t] = el idx [b, t])
           \<and> length (gs_calls st) = nat k
           \<and> tokens_in V (gs_idx st)"
proof -
  obtain st where st: "generate fwd draw seq_len idx k g = Inr st" "tokens_in V (gs_idx st)"
    using generate_run [OF assms, of k g] by blast
  show ?thesis using st generate_Inr(1,2,3) [OF st(1) assms(5)] by blast
qed

lemma spec_seed_facts: "shape spec_seed = [1, 1]" "tokens_in 5 spec_seed"
proof -
  show s: "shape spec_seed = [1, 1]" by (simp add: spec_seed_def)
  show "tokens_in 5 spec_seed" unfolding tokens_in_rank2 [OF s] by (simp add: spec_seed_def)
qed

lemma model_call_agrees: "forward_agrees R (model_call ce noise m) (model_call ce noise m)"
  unfolding forward_agrees_def
proof (intro allI impI)
  fix c g g' assume "R g g'"
  then show "(\<exists>e. model_call ce noise m c g = Inl e \<and> model_call ce noise m c g' = Inl e)
      \<or> (\<exists>lg h h'. model_call ce noise m c g = Inr (lg, h) \<and> model_call ce noise m c g' = Inr (lg, h')
            \<and> R h h')"
    by (cases "TextGenerationModel_forward ce noise m c None") (auto simp: model_call_def)
qed

text \<open>
  Claim C9. Two runs of \<open>generate\<close> on the same seed and \<open>max_new_tokens\<close>, with models
  and samplers that behave alike on related random sources and with related sources at
  the start, have the same outcome: both raise the same error or both return the same
  sequence. With equality for the relation this is two runs of one model from the same
  state of one random source.
\<close>

theorem generate_deterministic:
  assumes "forward_agrees R fwd1 fwd2" and "sampler_agrees R draw1 draw2" and "R g1 g2"
  shows "same_outcome R (generate fwd1 draw1 seq_len idx k g1) (generate fwd2 draw2 seq_len idx k g2)
     \<and> map_sum id gs_idx (generate fwd1 draw1 seq_len idx k g1)
       = map_sum id gs_idx (generate fwd2 draw2 seq_len idx k g2)"
proof -
  have so: "same_outcome R (generate fwd1 draw1 seq_len idx k g1) (generate fwd2 draw2 seq_len idx k g2)"
    unfolding generate_def
  proof (rule generate_loop_rel [where R = R])
    show "(\<exists>e. fwd1 c g = Inl e \<and> fwd2 c g' = Inl e)
      \<or> (\<exists>lg h h'. fwd1 c g = Inr (lg, h) \<and> fwd2 c g' = Inr (lg, h') \<and> R h h')" if "R g g'" for c g g'
      using assms(1) that unfolding forward_agrees_def by blast
    show "fst (draw1 g r) = fst (draw2 g' r) \<and> R (snd (draw1 g r)) (snd (draw2 g' r))" if "R g g'" for r g g'
      using assms(2) that unfolding sampler_agrees_def by blast
  qed (use assms(3) in simp_all)
  then have "map_sum id gs_idx (generate fwd1 draw1 seq_len idx k g1)
       = map_sum id gs_idx (generate fwd2 draw2 seq_len idx k g2)"
    by (cases "generate fwd1 draw1 seq_len idx k g1"; cases "generate fwd2 draw2 seq_len idx k g2")
       (simp_all add: same_outcome_def)
  then show ?thesis using so by blast
qed

text \<open>
  Two runs of the scenario's model whose samplers keep their state in different types.
\<close>

theorem generate_deterministic_witness:
  "forward_agrees same_count (model_call zero_loss no_noise spec_model)
      (model_call zero_loss no_noise spec_model)
   \<and> sampler_agrees same_count eos_sampler eos_sampler_int \<and> same_count 0 0
   \<and> same_outcome same_count
        (generate (model_call zero_loss no_noise spec_model) eos_sampler 3 spec_seed 2 0)
        (generate (model_call zero_loss no_noise spec_model) eos_sampler_int 3 spec_seed 2 0)
   \<and> map_sum id gs_idx (generate (model_call zero_loss no_noise spec_model) eos_sampler 3 spec_seed 2 0)
       = map_sum id gs_idx (generate (model_call zero_loss no_noise spec_model) eos_sampler_int 3 spec_seed 2 0)"
proof -
  have h: "forward_agrees same_count (model_call zero_loss no_noise spec_model)
      (model_call zero_loss no_noise spec_model)"
    "sampler_agrees same_count eos_sampler eos_sampler_int" "same_count 0 0"
  proof -
    show "forward_agrees same_count (model_call zero_loss no_noise spec_model)
      (model_call zero_loss no_noise spec_model)"
      by (rule model_call_agrees)
  qed (simp_all add: sampler_agrees_def same_count_def eos_sampler_def eos_sampler_int_def)
  from generate_deterministic [OF h, of 3 spec_seed 2]
  have c: "same_outcome same_count
        (generate (model_call zero_loss no_noise spec_model) eos_sampler 3 spec_seed 2 0)
        (generate (model_call zero_loss no_noise spec_model) eos_sampler_int 3 spec_seed 2 0)"
    "map_sum id gs_idx (generate (model_call zero_loss no_noise spec_model) eos_sampler 3 spec_seed 2 0)
       = map_sum id gs_idx (generate (model_call zero_loss no_noise spec_model) eos_sampler_int 3 spec_seed 2 0)"
    by blast+
  show ?thesis by (intro conjI h c)
qed

subsection \<open>The attention layer of the notebook's configuration\<close>

text \<open>
  Claim C3. With the notebook's constants \<open>d_model = 512\<close> and \<open>n_head = 6\<close> the block is
  built (the heads have width \<open>512 // 6 = 85\<close>), and \<open>MultiHeadAttention.forward\<close> returns
  for no input at all, in training or in evaluation mode: the six head outputs
  concatenate to \<open>6 * 85 = 510\<close> features, and the projection \<open>nn.Linear(512, 512)\<close>
  refuses them. On the one-token input the error is the \<open>RuntimeError\<close> of that
  projection.
\<close>

theorem notebook_attention_raises:
  "\<not> isl (Block_init notebook_globals init p 512 6)
   \<and> isl (MultiHeadAttention_forward noise (Block_sa (projr (Block_init notebook_globals init p 512 6))) x)
   \<and> isl (MultiHeadAttention_forward noise
            (MultiHeadAttention_eval (Block_sa (projr (Block_init notebook_globals init p 512 6)))) x)
   \<and> MultiHeadAttention_forward no_noise
        (MultiHeadAttention_eval (Block_sa (projr (Block_init notebook_globals unit_init [] 512 6))))
        unit_input = Inl RuntimeError
   \<and> (6 :: int) * (512 div 6) = 510"
proof -
  have G: "0 \<le> G_d_model notebook_globals" "0 \<le> G_seq_len notebook_globals"
    by (simp_all add: notebook_globals_def)
  have built: "\<exists>b. Block_init notebook_globals i q 512 6 = Inr b
     \<and> length (MHA_heads (Block_sa b)) = 6
     \<and> list_all (head_fits 512 85 128) (MHA_heads (Block_sa b))
     \<and> in_features (MHA_proj (Block_sa b)) = 512" for i q
    using Block_init_built [OF G, of 512 6 i q] by (auto simp: notebook_globals_def)
  obtain b where b: "Block_init notebook_globals init p 512 6 = Inr b"
    using built [of init p] by blast
  obtain u where u: "Block_init notebook_globals unit_init [] 512 6 = Inr u"
     "length (MHA_heads (Block_sa u)) = 6"
     "list_all (head_fits 512 85 128) (MHA_heads (Block_sa u))"
     "in_features (MHA_proj (Block_sa u)) = 512"
    using built [of unit_init "[]"] by blast
  let ?m = "MultiHeadAttention_eval (Block_sa u)"
  have m: "MHA_heads ?m \<noteq> []" "list_all (head_fits 512 85 128) (MHA_heads ?m)"
    "length (MHA_heads ?m) = 6" "in_features (MHA_proj ?m) = 512"
    using u(2,3,4) by (auto simp: MultiHeadAttention_eval_def list_all_iff head_fits_eval)
  have x: "shape unit_input = [1, 1, 512]" by (simp add: unit_input_def)
  have "MultiHeadAttention_forward no_noise ?m unit_input =
      (if length (MHA_heads ?m) * 85 = in_features (MHA_proj ?m)
       then Inr (nn_Dropout (MHA_training ?m) no_noise (projr (Linear_forward (MHA_proj ?m)
               (projr (torch_cat (map (\<lambda>h. projr (Head_forward no_noise h unit_input)) (MHA_heads ?m)))))))
       else Inl RuntimeError)"
    by (rule MultiHeadAttention_forward_shape(1) [OF x _ _ m(1) m(2)]) simp_all
  then have "MultiHeadAttention_forward no_noise ?m unit_input = Inl RuntimeError"
    by (simp only: m(3,4)) simp
  then show ?thesis
    using b u(1) notebook_attention_never_returns [OF b, of noise x] by simp
qed

subsection \<open>The transformer block\<close>

text \<open>
  Claim C8. \<open>Block.forward\<close> is the pre-norm residual composition of the
  specification: \<open>x' = x + sa(ln1(x))\<close>, then \<open>x'' = x' + ffwd(ln2(x'))\<close>, with the same result
  and the same error on every input. Tensors are values here, so the caller's \<open>x\<close> is
  not changed.
\<close>

theorem Block_forward_prenorm_residual:
  "Block_forward noise b x = spec_block noise b x"
  by (rule Block_forward_spec)

subsection \<open>The logits and the loss\<close>

lemma forward_with_targets:
  assumes "TextGenerationModel_forward ce noise m idx None = Inr (lg, None)"
    and "shape idx = [B, T]" and "shape lg = [B, T, V]"
  shows "TextGenerationModel_forward ce noise m idx (Some tg) =
     and_then (view lg [B * T, V]) (\<lambda>logits.
     and_then (view tg [B * T]) (\<lambda>targets.
     and_then (ce logits targets) (\<lambda>loss. Inr (logits, Some loss))))"
proof -
  from assms(1,2) obtain te pe x y z where "Embedding_forward (token_embedding_table m) idx = Inr te"
    "Embedding_forward (position_embedding_table m) (torch_arange T) = Inr pe"
    "tensor_add te pe = Inr x" "Sequential_forward noise (blocks m) x = Inr y"
    "LayerNorm_forward (ln_f m) y = Inr z" "Linear_forward (lm_head m) z = Inr lg"
    by (auto simp: TextGenerationModel_forward_def and_then_eq_Inr)
  then show ?thesis using assms(2,3) by (simp add: TextGenerationModel_forward_def)
qed

lemma TextGenerationModel_forward_flattens:
  assumes idx: "shape idx = [B, T]"
    and fw: "TextGenerationModel_forward ce noise m idx (Some tg) = Inr (lg, loss)"
  shows "\<exists>lg3. TextGenerationModel_forward ce noise m idx None = Inr (lg3, None)
           \<and> view lg3 [B * T, out_features (lm_head m)] = Inr lg"
proof -
  from fw idx obtain te pe x y z lg0 where te: "Embedding_forward (token_embedding_table m) idx = Inr te"
    and pe: "Embedding_forward (position_embedding_table m) (torch_arange T) = Inr pe"
    and x: "tensor_add te pe = Inr x"
    and y: "Sequential_forward noise (blocks m) x = Inr y"
    and z: "LayerNorm_forward (ln_f m) y = Inr z"
    and lg0: "Linear_forward (lm_head m) z = Inr lg0"
    and rest: "(case shape lg0 of
                  [batch_size, seq_len, d_model] \<Rightarrow>
                    and_then (view lg0 [batch_size * seq_len, d_model]) (\<lambda>logits.
                    and_then (view tg [batch_size * seq_len]) (\<lambda>targets.
                    and_then (ce logits targets) (\<lambda>loss.
                    Inr (logits, Some loss))))
                | _ \<Rightarrow> Inl ValueError) = Inr (lg, loss)"
    by (auto simp: TextGenerationModel_forward_def and_then_eq_Inr)
  have s0: "shape lg0 = [B, T, out_features (lm_head m)]"
    by (rule forward_logits_Inr [OF idx te pe x y z lg0])
  have "TextGenerationModel_forward ce noise m idx None = Inr (lg0, None)"
    using idx te pe x y z lg0 by (simp add: TextGenerationModel_forward_def)
  moreover have "view lg0 [B * T, out_features (lm_head m)] = Inr lg"
    using rest s0 by (auto simp: and_then_eq_Inr)
  ultimately show ?thesis by blast
qed

text \<open>
  Claim C10. Whenever \<open>TextGenerationModel.forward\<close> returns on an input of shape
  \<open>(B, T)\<close>: without targets the loss is \<open>None\<close> and the logits have shape
  \<open>(B, T, vocab_size)\<close>; with targets the logits have shape \<open>(B * T, vocab_size)\<close>, they
  are the view of the logits returned without targets, and the loss is what
  \<open>F.cross_entropy\<close> gives on them and the flattened targets. Here \<open>vocab_size\<close> is the
  output width of \<open>lm_head\<close>.
\<close>

theorem forward_logits_shape_by_targets:
  assumes "shape idx = [B, T]"
    and "TextGenerationModel_forward ce noise m idx targets = Inr (lg, loss)"
  shows "(case targets of
            None \<Rightarrow> loss = None \<and> shape lg = [B, T, out_features (lm_head m)]
          | Some tg \<Rightarrow> shape lg = [B * T, out_features (lm_head m)]
               \<and> (\<exists>lg3. TextGenerationModel_forward ce noise m idx None = Inr (lg3, None)
                      \<and> view lg3 [B * T, out_features (lm_head m)] = Inr lg)
               \<and> (\<exists>tg' l. view tg [B * T] = Inr tg' \<and> ce lg tg' = Inr l \<and> loss = Some l))"
proof (cases targets)
  case None
  then show ?thesis using TextGenerationModel_forward_Inr [OF assms] by simp
next
  case (Some tg)
  then show ?thesis
    using TextGenerationModel_forward_Inr [OF assms] TextGenerationModel_forward_flattens [OF assms(1), of ce noise m tg lg loss] assms(2)
    by simp
qed

text \<open>
  The scenario's model on the seed, without targets and with the seed as targets.
\<close>

theorem forward_logits_shape_by_targets_witness:
  "shape spec_seed = [1, 1]
   \<and> TextGenerationModel_forward zero_loss no_noise spec_model spec_seed None
       = Inr (projr (TextGenerationModel_forward zero_loss no_noise spec_model spec_seed None))
   \<and> snd (projr (TextGenerationModel_forward zero_loss no_noise spec_model spec_seed None)) = None
   \<and> shape (fst (projr (TextGenerationModel_forward zero_loss no_noise spec_model spec_seed None))) = [1, 1, 5]
   \<and> TextGenerationModel_forward zero_loss no_noise spec_model spec_seed (Some spec_seed)
       = Inr (projr (TextGenerationModel_forward zero_loss no_noise spec_model spec_seed (Some spec_seed)))
   \<and> snd (projr (TextGenerationModel_forward zero_loss no_noise spec_model spec_seed (Some spec_seed))) = Some 0
   \<and> shape (fst (projr (TextGenerationModel_forward zero_loss no_noise spec_model spec_seed (Some spec_seed))))
       = [1, 5]"
proof -
  let ?f = "\<lambda>t. TextGenerationModel_forward zero_loss no_noise spec_model spec_seed t"
  have s: "shape spec_seed = [1, 1]" by (rule spec_seed_facts)
  have V: "out_features (lm_head spec_model) = 5" using spec_model_fits by (simp add: model_fits_def)
  obtain lg where lg: "?f None = Inr (lg, None)" "shape lg = [1, 1, 5]"
    using TextGenerationModel_forward_ok [OF spec_model_fits s _ spec_seed_facts(2), of zero_loss no_noise]
    by auto
  have r1: "?f None = Inr (projr (?f None))" using lg(1) by simp
  have "?f None = Inr (fst (projr (?f None)), snd (projr (?f None)))" using lg(1) by simp
  from forward_logits_shape_by_targets [OF s this]
  have c1: "snd (projr (?f None)) = None" "shape (fst (projr (?f None))) = [1, 1, 5]"
    using V by simp_all
  have "?f (Some spec_seed) = and_then (view lg [1 * 1, 5]) (\<lambda>logits.
     and_then (view spec_seed [1 * 1]) (\<lambda>targets.
     and_then (zero_loss logits targets) (\<lambda>loss. Inr (logits, Some loss))))"
    by (rule forward_with_targets [OF lg(1) s lg(2)])
  then have "\<exists>r. ?f (Some spec_seed) = Inr r"
    using lg(2) s by (simp add: view_def zero_loss_def)
  then have r2: "?f (Some spec_seed) = Inr (projr (?f (Some spec_seed)))" by auto
  then have "?f (Some spec_seed) = Inr (fst (projr (?f (Some spec_seed))), snd (projr (?f (Some spec_seed))))"
    by simp
  from forward_logits_shape_by_targets [OF s this]
  have c2: "snd (projr (?f (Some spec_seed))) = Some 0"
    "shape (fst (projr (?f (Some spec_seed)))) = [1, 5]"
    using V by (auto simp: zero_loss_def)
  show ?thesis by (intro conjI s r1 c1 r2 c2)
qed

subsection \<open>Generation with the notebook's model\<close>

lemma Block_init_ln:
  assumes "Block_init G init p d_model n_head = Inr b"
  shows "LN_dim (Block_ln1 b) = nat d_model \<and> LN_dim (Block_ln2 b) = nat d_model"
  using assms
  by (auto simp: Block_init_def Let_def nn_LayerNorm_def and_then_eq_Inr split: if_splits)

lemma notebook_block_raises:
  assumes b: "Block_init notebook_globals init p 512 6 = Inr b"
  shows "isl (Block_forward noise b x)"
    and "shape x = [B, T, 512] \<Longrightarrow> T \<le> 128 \<Longrightarrow> Block_forward noise b x = Inl RuntimeError"
proof -
  show "isl (Block_forward noise b x)"
  proof (cases "LayerNorm_forward (Block_ln1 b) x")
    case (Inl e)
    then show ?thesis by (simp add: Block_forward_def)
  next
    case (Inr n1)
    have "isl (MultiHeadAttention_forward noise (Block_sa b) n1)"
      by (rule notebook_attention_never_returns(1) [OF b])
    then show ?thesis using Inr
      by (cases "MultiHeadAttention_forward noise (Block_sa b) n1") (simp_all add: Block_forward_def)
  qed
  show "Block_forward noise b x = Inl RuntimeError" if x: "shape x = [B, T, 512]" and T: "T \<le> 128"
  proof -
    have G: "0 \<le> G_d_model notebook_globals" "0 \<le> G_seq_len notebook_globals"
      by (simp_all add: notebook_globals_def)
    from Block_init_built [OF G, of 512 6 init p] b
    have len: "length (MHA_heads (Block_sa b)) = 6"
      and fits: "list_all (head_fits 512 85 128) (MHA_heads (Block_sa b))"
      and proj: "in_features (MHA_proj (Block_sa b)) = 512"
      by (simp_all add: notebook_globals_def)
    have ne: "MHA_heads (Block_sa b) \<noteq> []" using len by auto
    have ln: "LN_dim (Block_ln1 b) = 512" using Block_init_ln [OF b] by simp
    obtain n1 where n1: "LayerNorm_forward (Block_ln1 b) x = Inr n1" "shape n1 = [B, T, 512]"
      using LayerNorm_forward_shape [OF x ln] by blast
    have "MultiHeadAttention_forward noise (Block_sa b) n1 =
      (if length (MHA_heads (Block_sa b)) * 85 = in_features (MHA_proj (Block_sa b))
       then Inr (nn_Dropout (MHA_training (Block_sa b)) noise (projr (Linear_forward (MHA_proj (Block_sa b))
               (projr (torch_cat (map (\<lambda>h. projr (Head_forward noise h n1)) (MHA_heads (Block_sa b))))))))
       else Inl RuntimeError)"
      by (rule MultiHeadAttention_forward_shape(1) [OF n1(2) _ T ne fits]) simp
    then have "MultiHeadAttention_forward noise (Block_sa b) n1 = Inl RuntimeError"
      by (simp only: len proj) simp
    then show ?thesis using n1(1) by (simp add: Block_forward_def)
  qed
qed

lemma notebook_model_built:
  "\<exists>m b bs. TextGenerationModel_init notebook_globals init = Inr m
     \<and> blocks m = b # bs \<and> Block_init notebook_globals init [2, 0] 512 6 = Inr b
     \<and> num_embeddings (token_embedding_table m) = 12731
     \<and> embedding_dim (token_embedding_table m) = 512
     \<and> num_embeddings (position_embedding_table m) = 128
     \<and> embedding_dim (position_embedding_table m) = 512"
proof -
  have G: "0 \<le> G_d_model notebook_globals" "0 \<le> G_seq_len notebook_globals"
    by (simp_all add: notebook_globals_def)
  define f where "f = (\<lambda>i. Block_init notebook_globals init [2, i] 512 6)"
  define g where "g = (\<lambda>i. projr (f i))"
  have fg: "f i = Inr (g i)" for i
    using Block_init_built [OF G, of 512 6 init "[2, i]"] by (auto simp: f_def g_def)
  have seq: "sequence (map f [0..<8]) = Inr (map g [0..<8])"
    by (rule sequence_map_Inr) (rule fg)
  have up: "[0..<8] = 0 # [1..<8]" by (simp add: upt_conv_Cons)
  have gl: "G_vocab_size notebook_globals = 12731" "G_seq_len notebook_globals = 128"
    "G_d_model notebook_globals = 512" "G_n_head notebook_globals = 6" "G_n_layer notebook_globals = 8"
    by (simp_all add: notebook_globals_def)
  have "\<exists>m. TextGenerationModel_init notebook_globals init = Inr m
     \<and> blocks m = map g [0..<8]
     \<and> num_embeddings (token_embedding_table m) = 12731
     \<and> embedding_dim (token_embedding_table m) = 512
     \<and> num_embeddings (position_embedding_table m) = 128
     \<and> embedding_dim (position_embedding_table m) = 512"
    using seq
    by (simp add: TextGenerationModel_init_def gl f_def [symmetric]
        nn_Embedding_def nn_LayerNorm_def nn_Linear_def del: upt_rec_numeral)
  then obtain m where m: "TextGenerationModel_init notebook_globals init = Inr m"
     "blocks m = map g [0..<8]"
     "num_embeddings (token_embedding_table m) = 12731"
     "embedding_dim (token_embedding_table m) = 512"
     "num_embeddings (position_embedding_table m) = 128"
     "embedding_dim (position_embedding_table m) = 512"
    by blast
  have "blocks m = g 0 # map g [1..<8]" using m(2) by (simp only: up list.map)
  moreover have "Block_init notebook_globals init [2, 0] 512 6 = Inr (g 0)"
    using fg [of 0] by (simp add: f_def)
  ultimately show ?thesis using m by blast
qed

lemma Block_forward_raises:
  assumes "\<And>n1. isl (MultiHeadAttention_forward noise (Block_sa b) n1)"
  shows "isl (Block_forward noise b x)"
proof (cases "LayerNorm_forward (Block_ln1 b) x")
  case (Inl e)
  then show ?thesis by (simp add: Block_forward_def)
next
  case (Inr n1)
  then show ?thesis using assms [of n1]
    by (cases "MultiHeadAttention_forward noise (Block_sa b) n1") (simp_all add: Block_forward_def)
qed

lemma forward_raises:
  assumes "blocks m = b # bs" and "\<And>x. isl (Block_forward noise b x)"
  shows "isl (TextGenerationModel_forward ce noise m idx targets)"
proof (rule ccontr)
  assume "\<not> isl (TextGenerationModel_forward ce noise m idx targets)"
  then obtain r where "TextGenerationModel_forward ce noise m idx targets = Inr r"
    by (cases "TextGenerationModel_forward ce noise m idx targets") auto
  then obtain x y where "Sequential_forward noise (blocks m) x = Inr y"
    by (auto simp: TextGenerationModel_forward_def and_then_eq_Inr split: list.splits)
  then obtain z where "Block_forward noise b x = Inr z"
    using assms(1) by (auto simp: and_then_eq_Inr)
  then show False using assms(2) [of x] by simp
qed

lemma generate_raises:
  assumes "\<And>c g. isl (fwd c g)"
  shows "isl (generate fwd draw seq_len idx (1 + int n) g)"
proof -
  have step: "isl (generate_step fwd draw seq_len st)" for st
  proof (cases "slice_from_dim1 (gs_idx st) (- seq_len)")
    case (Inl e)
    then show ?thesis by (simp add: generate_step_def)
  next
    case (Inr c)
    then show ?thesis using assms [of c "gs_rng st"]
      by (cases "fwd c (gs_rng st)") (simp_all add: generate_step_def)
  qed
  have "nat (1 + int n) = Suc n" by simp
  then have "generate fwd draw seq_len idx (1 + int n) g
      = and_then (generate_step fwd draw seq_len \<lparr>gs_idx = idx, gs_rng = g, gs_calls = []\<rparr>)
          (generate_loop fwd draw seq_len n)"
    by (simp add: generate_def)
  then show ?thesis
    using step [of "\<lparr>gs_idx = idx, gs_rng = g, gs_calls = []\<rparr>"]
    by (cases "generate_step fwd draw seq_len \<lparr>gs_idx = idx, gs_rng = g, gs_calls = []\<rparr>") simp_all
qed

lemma notebook_forward_on_context:
  assumes m: "TextGenerationModel_init notebook_globals init = Inr m"
    and c: "shape c = [1, 1]" "el c [0, 0] = 2"
  shows "TextGenerationModel_forward ce noise m c None = Inl RuntimeError"
proof -
  obtain m' b bs where m': "TextGenerationModel_init notebook_globals init = Inr m'"
     "blocks m' = b # bs" "Block_init notebook_globals init [2, 0] 512 6 = Inr b"
     "num_embeddings (token_embedding_table m') = 12731"
     "embedding_dim (token_embedding_table m') = 512"
     "num_embeddings (position_embedding_table m') = 128"
     "embedding_dim (position_embedding_table m') = 512"
    using notebook_model_built [of init] by blast
  have mm: "m' = m" using m m'(1) by simp
  have tok: "tokens_in 12731 c" unfolding tokens_in_rank2 [OF c(1)] using c(2) by simp
  obtain te where te: "Embedding_forward (token_embedding_table m) c = Inr te" "shape te = [1, 1, 512]"
    using Embedding_forward_ok [of "token_embedding_table m" c] tok m'(4,5) c(1) mm by auto
  have "tokens_in 128 (torch_arange 1)" by (rule tokens_in_arange) simp
  then obtain pe where pe: "Embedding_forward (position_embedding_table m) (torch_arange 1) = Inr pe"
    "shape pe = [1, 512]"
    using Embedding_forward_ok [of "position_embedding_table m" "torch_arange 1"] m'(6,7) mm
    by (auto simp: torch_arange_def)
  obtain x where x: "tensor_add te pe = Inr x" "shape x = [1, 1, 512]"
    using te(2) pe(2) by (simp add: tensor_add_def broadcast_shapes_def)
  have "Block_forward noise b x = Inl RuntimeError"
    by (rule notebook_block_raises(2) [OF m'(3) x(2)]) simp
  then have "Sequential_forward noise (blocks m) x = Inl RuntimeError"
    using m'(2) mm by simp
  then show ?thesis using c(1) te(1) pe(1) x(1) by (simp add: TextGenerationModel_forward_def)
qed

text \<open>
  Claim C5. The claim says \<open>generate\<close> returns a sequence of length \<open>L + k\<close> for every seed
  and every \<open>k\<close>. The model the notebook builds (\<open>d_model = 512\<close>, \<open>n_head = 6\<close>) is
  constructed without error, and \<open>generate\<close> on it returns for no seed at all once
  \<open>max_new_tokens \<ge> 1\<close>, in training mode and in evaluation mode: the first model call
  raises in the attention layer of the first block. For the notebook's own call, the
  context \<open>[[2]]\<close> with \<open>max_new_tokens = 1000\<close>, the result is that \<open>RuntimeError\<close>.
\<close>

theorem notebook_generate_raises:
  "\<not> isl (TextGenerationModel_init notebook_globals init)
   \<and> isl (generate (model_call ce noise (projr (TextGenerationModel_init notebook_globals init)))
            draw 128 idx (1 + int n) g)
   \<and> isl (generate (model_call ce noise
              (TextGenerationModel_eval (projr (TextGenerationModel_init notebook_globals init))))
            draw 128 idx (1 + int n) g)
   \<and> generate (model_call ce noise (projr (TextGenerationModel_init notebook_globals init)))
        draw 128 notebook_context 1000 g = Inl RuntimeError"
proof -
  obtain m b bs where m: "TextGenerationModel_init notebook_globals init = Inr m"
     "blocks m = b # bs" "Block_init notebook_globals init [2, 0] 512 6 = Inr b"
    using notebook_model_built [of init] by blast
  have b1: "isl (Block_forward noise b x)" for x
    by (rule Block_forward_raises) (rule notebook_attention_never_returns(1) [OF m(3)])
  have b2: "isl (Block_forward noise (Block_eval b) x)" for x
    by (rule Block_forward_raises)
       (simp add: Block_eval_def notebook_attention_never_returns(2) [OF m(3)])
  have f1: "isl (model_call ce noise m c h)" for c and h :: 'a
    using forward_raises [OF m(2) b1, of ce c None]
    by (cases "TextGenerationModel_forward ce noise m c None") (simp_all add: model_call_def)
  have e: "blocks (TextGenerationModel_eval m) = Block_eval b # map Block_eval bs"
    using m(2) by (simp add: TextGenerationModel_eval_def)
  have f2: "isl (model_call ce noise (TextGenerationModel_eval m) c h)" for c and h :: 'a
    using forward_raises [OF e b2, of ce c None]
    by (cases "TextGenerationModel_forward ce noise (TextGenerationModel_eval m) c None")
       (simp_all add: model_call_def)
  have g1: "isl (generate (model_call ce noise m) draw 128 idx (1 + int n) g)"
    by (rule generate_raises) (rule f1)
  have g2: "isl (generate (model_call ce noise (TextGenerationModel_eval m)) draw 128 idx (1 + int n) g)"
    by (rule generate_raises) (rule f2)
  let ?c = "\<lparr>shape = [1, 1 - slice_start (- 128) 1],
             el = (\<lambda>ix. el notebook_context (ix[1 := ix ! 1 + slice_start (- 128) 1]))\<rparr>"
  have sl: "slice_from_dim1 notebook_context (- 128) = Inr ?c"
    by (rule slice_from_dim1_rank2) (simp add: notebook_context_def)
  have "TextGenerationModel_forward ce noise m ?c None = Inl RuntimeError"
    by (rule notebook_forward_on_context [OF m(1)])
       (simp_all add: slice_start_def notebook_context_def)
  then have "model_call ce noise m ?c g = Inl RuntimeError" by (simp add: model_call_def)
  then have step: "generate_step (model_call ce noise m) draw 128
      \<lparr>gs_idx = notebook_context, gs_rng = g, gs_calls = []\<rparr> = Inl RuntimeError"
    using sl by (simp add: generate_step_def)
  have "generate (model_call ce noise m) draw 128 notebook_context 1000 g
      = generate_loop (model_call ce noise m) draw 128 (Suc 999)
          \<lparr>gs_idx = notebook_context, gs_rng = g, gs_calls = []\<rparr>"
    by (simp add: generate_def)
  also have "\<dots> = Inl RuntimeError"
    by (simp only: generate_loop.simps step and_then_Inl)
  finally have g3: "generate (model_call ce noise m) draw 128 notebook_context 1000 g = Inl RuntimeError" .
  show ?thesis using m(1) g1 g2 g3 by simp
qed

subsection \<open>What the model is called with\<close>

lemma and_then_assoc: "and_then (and_then m f) h = and_then m (\<lambda>v. and_then (f v) h)"
  by (cases m) simp_all

lemma generate_loop_snoc:
  "generate_loop fwd draw seq_len (Suc n) st
     = and_then (generate_loop fwd draw seq_len n st) (generate_step fwd draw seq_len)"
proof (induction n arbitrary: st)
  case 0
  show ?case by (cases "generate_step fwd draw seq_len st") simp_all
next
  case (Suc n)
  show ?case
  proof (cases "generate_step fwd draw seq_len st")
    case (Inl e)
    then show ?thesis by simp
  next
    case (Inr s)
    then show ?thesis using Suc.IH [of s] by simp
  qed
qed

lemma draw_rows_beside_log:
  "snd (snd (draw_rows (beside_log draw) s rows)) = snd s"
proof (induction rows arbitrary: s)
  case Nil
  show ?case by simp
next
  case (Cons r rows)
  obtain k g' where d: "draw (fst s) r = (k, g')" by (cases "draw (fst s) r")
  have "snd (snd (draw_rows (beside_log draw) (g', snd s) rows)) = snd s"
    using Cons.IH [of "(g', snd s)"] by simp
  moreover have "beside_log draw s r = (k, (g', snd s))" by (simp add: beside_log_def d)
  ultimately show ?case by (simp add: split_beta)
qed

lemma torch_multinomial_beside_log:
  assumes "torch_multinomial (beside_log draw) s p = Inr (nxt, s')"
  shows "snd s' = snd s"
proof -
  from assms obtain B V where p: "shape p = [B, V]"
    by (auto simp: torch_multinomial_def split: list.splits)
  let ?rows = "map (\<lambda>b. row_of p [b]) [0..<B]"
  from assms p have "s' = snd (draw_rows (beside_log draw) s ?rows)"
    by (auto simp: torch_multinomial_def Let_def split: if_splits prod.splits)
  then show ?thesis by (simp add: draw_rows_beside_log)
qed

lemma recording_step:
  fixes seq_len :: int
  assumes idx: "shape (gs_idx st) = [B, L]"
  defines "w \<equiv> \<lparr>shape = [B, L - slice_start (- seq_len) L],
               el = (\<lambda>ix. el (gs_idx st) (ix[1 := ix ! 1 + slice_start (- seq_len) L]))\<rparr>"
  shows "fwd w (fst (gs_rng st)) = Inl e
           \<Longrightarrow> generate_step (recording fwd) (beside_log draw) seq_len st = Inl e"
    and "generate_step (recording fwd) (beside_log draw) seq_len st = Inr st'
           \<Longrightarrow> snd (gs_rng st') = snd (gs_rng st) @ [w] \<and> gs_calls st' = gs_calls st @ [w]
               \<and> (\<exists>r. fwd w (fst (gs_rng st)) = Inr r)"
proof -
  have sl: "slice_from_dim1 (gs_idx st) (- seq_len) = Inr w"
    unfolding w_def by (rule slice_from_dim1_rank2 [OF idx])
  show "generate_step (recording fwd) (beside_log draw) seq_len st = Inl e"
    if "fwd w (fst (gs_rng st)) = Inl e"
    using that sl by (simp add: generate_step_def recording_def)
  show "snd (gs_rng st') = snd (gs_rng st) @ [w] \<and> gs_calls st' = gs_calls st @ [w]
               \<and> (\<exists>r. fwd w (fst (gs_rng st)) = Inr r)"
    if step: "generate_step (recording fwd) (beside_log draw) seq_len st = Inr st'"
  proof -
    from step sl obtain lg s1 lst probs nxt s2 idx' where
      fw: "recording fwd w (gs_rng st) = Inr (lg, s1)"
      and mn: "torch_multinomial (beside_log draw) s1 probs = Inr (nxt, s2)"
      and st': "st' = \<lparr>gs_idx = idx', gs_rng = s2, gs_calls = gs_calls st @ [w]\<rparr>"
      by (auto simp: generate_step_def and_then_eq_Inr split: prod.splits)
    from fw have s1: "snd s1 = snd (gs_rng st) @ [w]" and r: "\<exists>r. fwd w (fst (gs_rng st)) = Inr r"
      by (auto simp: recording_def split: sum.splits prod.splits)
    have "snd s2 = snd s1" by (rule torch_multinomial_beside_log [OF mn])
    then show ?thesis using s1 r st' by simp
  qed
qed

lemma recording_loop_log:
  assumes "generate_loop (recording fwd) (beside_log draw) seq_len n st = Inr st'"
    and "shape (gs_idx st) = [B, L]" and "snd (gs_rng st) = gs_calls st"
  shows "snd (gs_rng st') = gs_calls st'"
  using assms
proof (induction n arbitrary: st L)
  case 0
  then show ?case by simp
next
  case (Suc n)
  from Suc.prems(1) obtain st1 where step: "generate_step (recording fwd) (beside_log draw) seq_len st = Inr st1"
    and rest: "generate_loop (recording fwd) (beside_log draw) seq_len n st1 = Inr st'"
    by (auto simp: and_then_eq_Inr)
  have sh: "shape (gs_idx st1) = [B, L + 1]"
    by (rule generate_step_Inr(1) [OF step Suc.prems(2)])
  have "snd (gs_rng st1) = gs_calls st1"
    using recording_step(2) [OF Suc.prems(2) step] Suc.prems(3) by simp
  from Suc.IH [OF rest sh this] show ?case .
qed

lemma forward_returns_recording:
  assumes "forward_returns fwd B n V"
  shows "forward_returns (recording fwd) B n V"
  unfolding forward_returns_def
proof (intro allI impI)
  fix c :: "int tensor" and s :: "'a \<times> int tensor list" and T
  assume "shape c = [B, T] \<and> 1 \<le> T \<and> T \<le> n \<and> tokens_in V c"
  then obtain lg g' where "fwd c (fst s) = Inr (lg, g')" "shape lg = [B, T, V]"
    using assms unfolding forward_returns_def by blast
  then show "\<exists>lg s'. recording fwd c s = Inr (lg, s') \<and> shape lg = [B, T, V]"
    by (simp add: recording_def)
qed

lemma sampler_in_range_beside_log:
  assumes "sampler_in_range draw V"
  shows "sampler_in_range (beside_log draw) V"
  using assms by (simp add: sampler_in_range_def beside_log_def split_beta)



end
